theory Spec2Isabelle
  imports
    Complex_Main
    "HOL-Library.Sublist"
    "HOL-Library.Char_ord"
    "HOL-Library.List_Lexorder"
begin

section \<open>Library functions used by the servers\<close>

text \<open>
  \<^verbatim>\<open>strings.Contains(s, substr)\<close>: \<open>substr\<close> occurs in \<open>s\<close> as a contiguous run of
  bytes; the empty \<open>substr\<close> occurs in every string.
\<close>

fun Contains :: "string \<Rightarrow> string \<Rightarrow> bool" where
  "Contains [] substr = (substr = [])"
| "Contains (c # s) substr = (prefix substr (c # s) \<or> Contains s substr)"

text \<open>
  \<^verbatim>\<open>strings.ToLower\<close> is a library function over Unicode. The handlers below take it as
  the parameter \<open>lower\<close>, so that what is proved about them holds for the library's
  function whatever it does outside ASCII. \<open>asciiToLower\<close> is what it does on ASCII
  text, which is all the quote table holds; it is used to run the handlers on concrete
  inputs.
\<close>

definition asciiLowerChar :: "char \<Rightarrow> char" where
  "asciiLowerChar c =
     (case map_of (zip ''ABCDEFGHIJKLMNOPQRSTUVWXYZ'' ''abcdefghijklmnopqrstuvwxyz'') c of
        Some l \<Rightarrow> l
      | None \<Rightarrow> c)"

definition asciiToLower :: "string \<Rightarrow> string" where
  "asciiToLower s = map asciiLowerChar s"

text \<open>\<^verbatim>\<open>%d\<close> of \<^verbatim>\<open>fmt\<close>: the decimal digits of an integer, with a minus sign below zero.\<close>

definition digitChar :: "nat \<Rightarrow> char" where
  "digitChar d = ''0123456789'' ! (d mod 10)"

fun showNat :: "nat \<Rightarrow> string" where
  "showNat n = (if n < 10 then [digitChar n] else showNat (n div 10) @ [digitChar (n mod 10)])"

definition showInt :: "int \<Rightarrow> string" where
  "showInt i = (if i < 0 then CHR ''-'' # showNat (nat (- i)) else showNat (nat i))"

section \<open>The quotes server\<close>

subsection \<open>Data\<close>

record GetRandomQuoteInput =
  Category :: string

record Quote =
  Text :: string
  Author :: string
  Category :: string

record SearchQuotesInput =
  Query :: string
  Limit :: int

text \<open>A slice is a list; the nil slice of a search without match is the empty list.\<close>

record SearchQuotesOutput =
  Quotes :: "Quote list"
  Total :: int

text \<open>The static quote table (the fallback when the API is unavailable), in source order.\<close>

definition quotes :: "Quote list" where
  "quotes =
   [\<lparr>Text = ''The only way to do great work is to love what you do.'', Author = ''Steve Jobs'', Category = ''motivation''\<rparr>,
    \<lparr>Text = ''Innovation distinguishes between a leader and a follower.'', Author = ''Steve Jobs'', Category = ''innovation''\<rparr>,
    \<lparr>Text = ''Stay hungry, stay foolish.'', Author = ''Steve Jobs'', Category = ''motivation''\<rparr>,
    \<lparr>Text = ''Life is what happens when you'' @ [CHR 0x27] @ ''re busy making other plans.'', Author = ''John Lennon'', Category = ''life''\<rparr>,
    \<lparr>Text = ''The future belongs to those who believe in the beauty of their dreams.'', Author = ''Eleanor Roosevelt'', Category = ''motivation''\<rparr>,
    \<lparr>Text = ''It is during our darkest moments that we must focus to see the light.'', Author = ''Aristotle'', Category = ''wisdom''\<rparr>,
    \<lparr>Text = ''The only thing we have to fear is fear itself.'', Author = ''Franklin D. Roosevelt'', Category = ''courage''\<rparr>,
    \<lparr>Text = ''In the middle of difficulty lies opportunity.'', Author = ''Albert Einstein'', Category = ''wisdom''\<rparr>,
    \<lparr>Text = ''Imagination is more important than knowledge.'', Author = ''Albert Einstein'', Category = ''wisdom''\<rparr>,
    \<lparr>Text = ''Be the change you wish to see in the world.'', Author = ''Mahatma Gandhi'', Category = ''motivation''\<rparr>,
    \<lparr>Text = ''An eye for an eye only ends up making the whole world blind.'', Author = ''Mahatma Gandhi'', Category = ''wisdom''\<rparr>,
    \<lparr>Text = ''The best time to plant a tree was 20 years ago. The second best time is now.'', Author = ''Chinese Proverb'', Category = ''wisdom''\<rparr>,
    \<lparr>Text = ''Talk is cheap. Show me the code.'', Author = ''Linus Torvalds'', Category = ''programming''\<rparr>,
    \<lparr>Text = ''First, solve the problem. Then, write the code.'', Author = ''John Johnson'', Category = ''programming''\<rparr>,
    \<lparr>Text = ''Code is like humor. When you have to explain it, it'' @ [CHR 0x27] @ ''s bad.'', Author = ''Cory House'', Category = ''programming''\<rparr>,
    \<lparr>Text = ''Simplicity is the soul of efficiency.'', Author = ''Austin Freeman'', Category = ''programming''\<rparr>,
    \<lparr>Text = ''Any fool can write code that a computer can understand. Good programmers write code that humans can understand.'', Author = ''Martin Fowler'', Category = ''programming''\<rparr>,
    \<lparr>Text = ''The most damaging phrase in the language is: We'' @ [CHR 0x27] @ ''ve always done it this way.'', Author = ''Grace Hopper'', Category = ''innovation''\<rparr>]"

text \<open>
  The errors the quote handlers return, one constructor for each \<^verbatim>\<open>fmt.Errorf\<close> or
  propagated error of the source; \<open>quotesErrorMessage\<close> is the text of the Go error.
\<close>

datatype quotesError =
    QueryRequired
  | NoQuotesForCategory string
  | ApiRequestFailed string
  | ApiStatus int
  | ApiDecodeFailed string
  | ApiEmptyResponse

fun quotesErrorMessage :: "quotesError \<Rightarrow> string" where
  "quotesErrorMessage QueryRequired = ''query is required''"
| "quotesErrorMessage (NoQuotesForCategory c) = ''no quotes found for category: '' @ c"
| "quotesErrorMessage (ApiRequestFailed e) = e"
| "quotesErrorMessage (ApiStatus code) = ''API returned status '' @ showInt code"
| "quotesErrorMessage (ApiDecodeFailed e) = e"
| "quotesErrorMessage ApiEmptyResponse = ''empty response from API''"

subsection \<open>search\_quotes\<close>

text \<open>The condition of the scan: the lowered query occurs in the lowered text, author or category.\<close>

definition quoteMatches :: "(string \<Rightarrow> string) \<Rightarrow> string \<Rightarrow> Quote \<Rightarrow> bool" where
  "quoteMatches lower query q \<longleftrightarrow>
     Contains (lower (Text q)) query \<or>
     Contains (lower (Author q)) query \<or>
     Contains (lower (Category q)) query"

text \<open>
  The \<^verbatim>\<open>for _, q := range quotes\<close> loop of \<^verbatim>\<open>searchQuotes\<close>: \<open>results\<close> is the slice built
  so far; a match is appended, and the loop breaks once \<open>len(results) >= limit\<close>.
\<close>

fun searchScan :: "(string \<Rightarrow> string) \<Rightarrow> string \<Rightarrow> int \<Rightarrow> Quote list \<Rightarrow> Quote list \<Rightarrow> Quote list" where
  "searchScan lower query limit [] results = results"
| "searchScan lower query limit (q # qs) results =
     (if quoteMatches lower query q then
        (if int (length (results @ [q])) \<ge> limit then results @ [q]
         else searchScan lower query limit qs (results @ [q]))
      else searchScan lower query limit qs results)"

text \<open>The limit after defaulting (5 when not positive) and capping (10).\<close>

definition effectiveLimit :: "int \<Rightarrow> int" where
  "effectiveLimit l = (let limit = (if l \<le> 0 then 5 else l) in if limit > 10 then 10 else limit)"

definition searchQuotes :: "(string \<Rightarrow> string) \<Rightarrow> SearchQuotesInput \<Rightarrow> quotesError + SearchQuotesOutput" where
  "searchQuotes lower input =
     (if Query input = [] then Inl QueryRequired
      else
        let limit = effectiveLimit (Limit input);
            query = lower (Query input);
            results = searchScan lower query limit quotes []
        in Inr \<lparr>Quotes = results, Total = int (length results)\<rparr>)"

subsection \<open>get\_random\_quote\<close>

text \<open>
  What the HTTP request of \<^verbatim>\<open>fetchQuoteFromAPI\<close> brings back: the request fails, or a
  response arrives with a status code and a body that either fails to decode or decodes
  to a value of the expected shape, here the list of \<open>(q, a)\<close> pairs of the API.
\<close>

datatype 'a apiReply =
    RequestFailed string
  | Response int "string + 'a"

fun fetchQuoteFromAPI :: "(string \<times> string) list apiReply \<Rightarrow> quotesError + Quote" where
  "fetchQuoteFromAPI (RequestFailed e) = Inl (ApiRequestFailed e)"
| "fetchQuoteFromAPI (Response code body) =
     (if code \<noteq> 200 then Inl (ApiStatus code)
      else case body of
             Inl e \<Rightarrow> Inl (ApiDecodeFailed e)
           | Inr [] \<Rightarrow> Inl ApiEmptyResponse
           | Inr ((q, a) # _) \<Rightarrow> Inr \<lparr>Text = q, Author = a, Category = []\<rparr>)"

text \<open>
  The local path of \<^verbatim>\<open>getRandomQuote\<close>. \<open>pick\<close> is the draw of the random generator:
  \<^verbatim>\<open>rand.Intn(n)\<close> returns an index below \<open>n\<close>, here \<open>pick mod n\<close>, and every index below
  \<open>n\<close> is \<open>pick mod n\<close> for some \<open>pick\<close>.
\<close>

definition localQuote :: "(string \<Rightarrow> string) \<Rightarrow> nat \<Rightarrow> GetRandomQuoteInput \<Rightarrow> quotesError + Quote" where
  "localQuote lower pick input =
     (if GetRandomQuoteInput.Category input \<noteq> [] then
        (let category = lower (GetRandomQuoteInput.Category input);
             filteredQuotes = filter (\<lambda>q. lower (Category q) = category) quotes
         in if length filteredQuotes = 0
            then Inl (NoQuotesForCategory (GetRandomQuoteInput.Category input))
            else Inr (filteredQuotes ! (pick mod length filteredQuotes)))
      else Inr (quotes ! (pick mod length quotes)))"

definition getRandomQuote :: "(string \<Rightarrow> string) \<Rightarrow> (string \<times> string) list apiReply \<Rightarrow> nat \<Rightarrow> GetRandomQuoteInput \<Rightarrow> quotesError + Quote" where
  "getRandomQuote lower reply pick input =
     (case fetchQuoteFromAPI reply of
        Inr quote \<Rightarrow>
          (if GetRandomQuoteInput.Category input = [] then Inr quote
           else localQuote lower pick input)
      | Inl err \<Rightarrow> localQuote lower pick input)"


section \<open>The HTTP layer shared by the servers\<close>

subsection \<open>The server's response writer\<close>

text \<open>
  \<^verbatim>\<open>http.Header\<close> is a map from header names to lists of values. \<^verbatim>\<open>Set\<close> replaces the
  values of a name by one value, \<^verbatim>\<open>Get\<close> returns the first value of a name, or the empty
  string. Both canonicalise the name; every name used by the servers is already in
  canonical form, so names are compared as they are.
\<close>

type_synonym Header = "string \<Rightarrow> string list option"

definition headerSet :: "Header \<Rightarrow> string \<Rightarrow> string \<Rightarrow> Header" where
  "headerSet h k v = h(k \<mapsto> [v])"

definition headerGet :: "Header \<Rightarrow> string \<Rightarrow> string" where
  "headerGet h k = (case h k of Some (v # _) \<Rightarrow> v | _ \<Rightarrow> [])"

text \<open>
  The \<^verbatim>\<open>http.ResponseWriter\<close> the server hands to a handler, by what a client observes:
  \<open>hdr\<close> is the header map the handler edits, \<open>committed\<close> the status code and the
  headers sent at the first \<^verbatim>\<open>WriteHeader\<close> (a later call changes nothing), \<open>wire\<close> the
  body bytes sent so far. \<^verbatim>\<open>Write\<close> before any \<^verbatim>\<open>WriteHeader\<close> commits status 200 first.
  A byte is a \<open>char\<close>, a byte slice a \<open>string\<close>.
\<close>

record httpResponse =
  hdr :: Header
  committed :: "(int \<times> Header) option"
  wire :: string

definition newResponse :: httpResponse where
  "newResponse = \<lparr>hdr = Map.empty, committed = None, wire = []\<rparr>"

definition setHeader :: "httpResponse \<Rightarrow> string \<Rightarrow> string \<Rightarrow> httpResponse" where
  "setHeader w k v = w\<lparr>hdr := headerSet (hdr w) k v\<rparr>"

definition httpWriteHeader :: "httpResponse \<Rightarrow> int \<Rightarrow> httpResponse" where
  "httpWriteHeader w code =
     (case committed w of
        None \<Rightarrow> w\<lparr>committed := Some (code, hdr w)\<rparr>
      | Some _ \<Rightarrow> w)"

definition httpWrite :: "httpResponse \<Rightarrow> string \<Rightarrow> httpResponse \<times> int" where
  "httpWrite w b =
     (let w' = httpWriteHeader w 200
      in (w'\<lparr>wire := wire w' @ b\<rparr>, int (length b)))"

definition statusOf :: "httpResponse \<Rightarrow> int option" where
  "statusOf w = map_option fst (committed w)"

definition sentHeader :: "httpResponse \<Rightarrow> string \<Rightarrow> string list option" where
  "sentHeader w k = (case committed w of None \<Rightarrow> None | Some (_, h) \<Rightarrow> h k)"

record Request =
  Method :: string
  Path :: string
  RemoteAddr :: string

type_synonym Handler = "httpResponse \<Rightarrow> Request \<Rightarrow> httpResponse"

subsection \<open>The diagnostic response writer\<close>

text \<open>
  \<^verbatim>\<open>responseWriter\<close> embeds the server's writer and records the status code, a copy of
  the headers and the first bytes of the body. \<open>body\<close> is \<open>None\<close> for the nil slice.
\<close>

record responseWriter =
  ResponseWriter :: httpResponse
  statusCode :: int
  headers :: Header
  body :: "string option"
  isStreaming :: bool

definition WriteHeader :: "responseWriter \<Rightarrow> int \<Rightarrow> responseWriter" where
  "WriteHeader rw code =
     rw\<lparr>statusCode := code,
        headers := hdr (ResponseWriter rw),
        isStreaming := (headerGet (hdr (ResponseWriter rw)) ''Content-Type'' = ''text/event-stream''),
        ResponseWriter := httpWriteHeader (ResponseWriter rw) code\<rparr>"


text \<open>The capture step of \<^verbatim>\<open>Write\<close>: what happens to \<open>body\<close> when the response is not streaming.\<close>

definition capture :: "string option \<Rightarrow> string \<Rightarrow> string option" where
  "capture bd b =
     (let body0 = (case bd of None \<Rightarrow> [] | Some bs \<Rightarrow> bs)
      in if length body0 < 1024 then
           (let remaining = 1024 - length body0
            in if length b > remaining then Some (body0 @ take remaining b)
               else Some (body0 @ b))
         else Some body0)"

definition Write :: "responseWriter \<Rightarrow> string \<Rightarrow> responseWriter \<times> int" where
  "Write rw b =
     (let rw1 = (if \<not> isStreaming rw then rw\<lparr>body := capture (body rw) b\<rparr> else rw);
          (w', n) = httpWrite (ResponseWriter rw1) b
      in (rw1\<lparr>ResponseWriter := w'\<rparr>, n))"

text \<open>A sequence of \<^verbatim>\<open>Write\<close> calls, one for each slice, in order.\<close>

fun Writes :: "responseWriter \<Rightarrow> string list \<Rightarrow> responseWriter" where
  "Writes rw [] = rw"
| "Writes rw (b # bs) = Writes (fst (Write rw b)) bs"

text \<open>\<^verbatim>\<open>len(rw.body)\<close>, the number of captured bytes.\<close>

definition capturedLen :: "responseWriter \<Rightarrow> nat" where
  "capturedLen rw = (case body rw of None \<Rightarrow> 0 | Some bs \<Rightarrow> length bs)"

subsection \<open>The CORS middleware\<close>

text \<open>The three servers carry the same \<^verbatim>\<open>corsMiddleware\<close>; \<open>next\<close> is the wrapped handler.\<close>

definition corsMiddleware :: "Handler \<Rightarrow> Handler" where
  "corsMiddleware next w r =
     (let w1 = setHeader w ''Access-Control-Allow-Origin'' ''*'';
          w2 = setHeader w1 ''Access-Control-Allow-Methods'' ''GET, POST, OPTIONS'';
          w3 = setHeader w2 ''Access-Control-Allow-Headers'' ''Content-Type, Authorization'';
          w4 = setHeader w3 ''Access-Control-Expose-Headers'' ''Mcp-Session-Id, Content-Type, Cache-Control''
      in if Method r = ''OPTIONS'' then httpWriteHeader w4 200
         else next w4 r)"

subsection \<open>The JSON encoder, for a map of strings\<close>

text \<open>
  \<^verbatim>\<open>json.NewEncoder(w).Encode(m)\<close> for \<open>m\<close> a \<^verbatim>\<open>map[string]string\<close>: one object with the keys
  in sorted order (bytewise), then a newline. A string is written between double quotes;
  the quote and the backslash are escaped with a backslash, the control characters as
  \<^verbatim>\<open>\b \f \n \r \t\<close> or \<^verbatim>\<open>\u00XX\<close>, and \<^verbatim>\<open>< > &\<close> as \<^verbatim>\<open>\u003c \u003e \u0026\<close>. Bytes
  above ASCII are taken to be valid UTF-8 and written as they are. The map is given by
  its entries, each key once.
\<close>

definition hexDigit :: "nat \<Rightarrow> char" where
  "hexDigit d = ''0123456789abcdef'' ! (d mod 16)"

definition jsonEscapeChar :: "char \<Rightarrow> string" where
  "jsonEscapeChar c =
     (if c = CHR 0x22 then [CHR 0x5C, CHR 0x22]
      else if c = CHR 0x5C then [CHR 0x5C, CHR 0x5C]
      else if c = CHR 0x08 then [CHR 0x5C, CHR ''b'']
      else if c = CHR 0x0C then [CHR 0x5C, CHR ''f'']
      else if c = CHR 0x0A then [CHR 0x5C, CHR ''n'']
      else if c = CHR 0x0D then [CHR 0x5C, CHR ''r'']
      else if c = CHR 0x09 then [CHR 0x5C, CHR ''t'']
      else if of_char c < (32::nat) \<or> c = CHR ''<'' \<or> c = CHR ''>'' \<or> c = CHR ''&''
        then [CHR 0x5C, CHR ''u'', CHR ''0'', CHR ''0'',
              hexDigit (of_char c div 16), hexDigit (of_char c mod 16)]
      else [c])"

definition jsonString :: "string \<Rightarrow> string" where
  "jsonString s = [CHR 0x22] @ concat (map jsonEscapeChar s) @ [CHR 0x22]"

fun joinWith :: "string \<Rightarrow> string list \<Rightarrow> string" where
  "joinWith sep [] = []"
| "joinWith sep [x] = x"
| "joinWith sep (x # y # ys) = x @ sep @ joinWith sep (y # ys)"

definition jsonMember :: "string \<times> string \<Rightarrow> string" where
  "jsonMember kv = jsonString (fst kv) @ '':'' @ jsonString (snd kv)"

definition Encode :: "(string \<times> string) list \<Rightarrow> string" where
  "Encode m = ''{'' @ joinWith '','' (map jsonMember (sort_key fst m)) @ ''}'' @ [CHR 0x0A]"

subsection \<open>The routes of a server\<close>

text \<open>
  What differs between the three \<^verbatim>\<open>main\<close> functions: the identity given to
  \<^verbatim>\<open>mcp.NewServer\<close>, the map literal of the \<open>/health\<close> handler, and the default port.
\<close>

record Implementation =
  Name :: string
  Version :: string

record serverMain =
  implementation :: Implementation
  healthDocument :: "(string \<times> string) list"
  defaultPort :: string

definition quotesMain :: serverMain where
  "quotesMain =
     \<lparr>implementation = \<lparr>Name = ''quotes-server'', Version = ''1.0.0''\<rparr>,
      healthDocument = [(''status'', ''ok''), (''server'', ''quotes-server''),
                        (''version'', ''1.0.0''), (''mcp_endpoint'', ''/mcp'')],
      defaultPort = ''8082''\<rparr>"

definition weatherMain :: serverMain where
  "weatherMain =
     \<lparr>implementation = \<lparr>Name = ''weather-server'', Version = ''1.0.0''\<rparr>,
      healthDocument = [(''status'', ''ok''), (''server'', ''weather-server''),
                        (''version'', ''1.0.0''), (''mcp_endpoint'', ''/mcp'')],
      defaultPort = ''8083''\<rparr>"

definition moonMain :: serverMain where
  "moonMain =
     \<lparr>implementation = \<lparr>Name = ''moon-phase-server'', Version = ''1.0.0''\<rparr>,
      healthDocument = [(''status'', ''ok''), (''server'', ''moon-phase-server''),
                        (''version'', ''1.0.0''), (''mcp_endpoint'', ''/mcp'')],
      defaultPort = ''8081''\<rparr>"

text \<open>The port: the flag, else the environment variable, else the default.\<close>

definition listenPort :: "serverMain \<Rightarrow> string \<Rightarrow> string \<Rightarrow> string" where
  "listenPort m portFlag env =
     (if portFlag = [] then (if env = [] then defaultPort m else env) else portFlag)"

definition healthHandler :: "serverMain \<Rightarrow> bool \<Rightarrow> Handler" where
  "healthHandler m corsFlag w r =
     (let w1 = (if corsFlag then
                  setHeader (setHeader (setHeader w
                    ''Access-Control-Allow-Origin'' ''*'')
                    ''Access-Control-Allow-Methods'' ''GET, POST, OPTIONS'')
                    ''Access-Control-Allow-Headers'' ''Content-Type, Authorization''
                else w);
          w2 = setHeader w1 ''Content-Type'' ''application/json''
      in fst (httpWrite w2 (Encode (healthDocument m))))"

definition notFoundHandler :: Handler where
  "notFoundHandler w r =
     (let w1 = setHeader w ''Content-Type'' ''application/json'';
          w2 = httpWriteHeader w1 404
      in fst (httpWrite w2
           (Encode [(''error'', ''Not Found''),
                    (''message'', ''Path '' @ Path r @ '' not found. Try /health or /mcp'')])))"

text \<open>
  The \<^verbatim>\<open>ServeMux\<close> of \<^verbatim>\<open>main\<close>, for a request path in canonical form: \<open>/mcp\<close> and
  \<open>/health\<close> match themselves only, \<open>/\<close> matches every other path. \<open>handler\<close> is the
  streamable HTTP handler of the SDK, which serves the tools.
\<close>

definition serveMux :: "serverMain \<Rightarrow> bool \<Rightarrow> Handler \<Rightarrow> Handler" where
  "serveMux m corsFlag handler w r =
     (if Path r = ''/mcp'' then
        (if corsFlag then corsMiddleware handler w r else handler w r)
      else if Path r = ''/health'' then healthHandler m corsFlag w r
      else notFoundHandler w r)"

section \<open>The weather server\<close>

subsection \<open>Data\<close>
















subsection \<open>get\_current\_weather\<close>


subsection \<open>get\_forecast\<close>




section \<open>The dispatcher of tool calls\<close>

text \<open>
  The servers register their handlers with \<^verbatim>\<open>mcp.AddTool\<close> and serve them through
  \<^verbatim>\<open>mcp.NewStreamableHTTPHandler\<close>; the code that resolves a tool and decodes its
  arguments is not among the sources. The definitions of this section follow the
  specification of the Dispatcher (section 4.2, \<open>tools/call\<close>, steps 1 to 4, and
  step 5 in \<open>callOutcome\<close>) and the error taxonomy (section 7).
\<close>

text \<open>Modelled from the spec: the kinds of the error taxonomy; the sources have no error kinds.\<close>

datatype ErrorKind = ToolNotFound | InvalidArguments | HandlerFailed | MalformedRequest | InternalFault

text \<open>Modelled from the spec: an untyped argument value of the wire, and the type a field accepts.\<close>

datatype wireValue = WString string | WNumber real | WBool bool

datatype fieldType = TString | TNumber | TInteger | TBool

text \<open>Modelled from the spec: whether a wire value decodes into a field of the given type (a type mismatch otherwise).\<close>

fun hasType :: "wireValue \<Rightarrow> fieldType \<Rightarrow> bool" where
  "hasType (WString _) TString = True"
| "hasType (WNumber _) TNumber = True"
| "hasType (WNumber x) TInteger = (x \<in> \<int>)"
| "hasType (WBool _) TBool = True"
| "hasType _ _ = False"

text \<open>
  Modelled from the spec: a field of a declared input shape (the decoder of the SDK is
  missing): its name, its type, whether it is required, and its default when it is not.
\<close>

record FieldSpec =
  fieldName :: string
  fieldType :: fieldType
  required :: bool
  defaultValue :: "wireValue option"

text \<open>
  Modelled from the spec: a registered tool (the registry of the SDK is missing): the
  descriptor of section 3, and the handler run on the decoded arguments, with a result
  of any type \<open>'r\<close>.
\<close>

record 'r Tool =
  toolName :: string
  description :: string
  inputShape :: "FieldSpec list"
  run :: "(string \<times> wireValue) list \<Rightarrow> 'r"

text \<open>Modelled from the spec: \<open>resolve(name)\<close> of the registry, the tools in registration order.\<close>

definition resolve :: "'r Tool list \<Rightarrow> string \<Rightarrow> 'r Tool option" where
  "resolve registry name = find (\<lambda>t. toolName t = name) registry"

text \<open>
  Modelled from the spec: decoding one field (step 2, with the default of step 3). A
  required field that is missing and a value of the wrong type fail with a message that
  names the field.
\<close>

definition decodeField :: "FieldSpec \<Rightarrow> (string \<times> wireValue) list \<Rightarrow> string + (string \<times> wireValue) list" where
  "decodeField f args =
     (case map_of args (fieldName f) of
        None \<Rightarrow>
          (if required f then Inl (''missing required field: '' @ fieldName f)
           else case defaultValue f of
                  None \<Rightarrow> Inr []
                | Some v \<Rightarrow> Inr [(fieldName f, v)])
      | Some v \<Rightarrow>
          (if hasType v (fieldType f) then Inr [(fieldName f, v)]
           else Inl (''wrong type for field: '' @ fieldName f)))"

text \<open>Modelled from the spec: decoding the arguments into a shape, field by field; the first failure is reported.\<close>

fun decodeArguments :: "FieldSpec list \<Rightarrow> (string \<times> wireValue) list \<Rightarrow> string + (string \<times> wireValue) list" where
  "decodeArguments [] args = Inr []"
| "decodeArguments (f # fs) args =
     (case decodeField f args of
        Inl msg \<Rightarrow> Inl msg
      | Inr x \<Rightarrow>
          (case decodeArguments fs args of
             Inl msg \<Rightarrow> Inl msg
           | Inr xs \<Rightarrow> Inr (x @ xs)))"

text \<open>
  Modelled from the spec: \<open>tools/call\<close>, steps 1 to 4. The result is a failure of the
  dispatcher, with its kind and message, or what the handler returned; the number
  beside it counts the invocations of the handler.
\<close>

definition toolsCall :: "'r Tool list \<Rightarrow> string \<Rightarrow> (string \<times> wireValue) list \<Rightarrow> ((ErrorKind \<times> string) + 'r) \<times> nat" where
  "toolsCall registry name args =
     (case resolve registry name of
        None \<Rightarrow> (Inl (ToolNotFound, ''tool not found: '' @ name), 0)
      | Some t \<Rightarrow>
          (case decodeArguments (inputShape t) args of
             Inl msg \<Rightarrow> (Inl (InvalidArguments, msg), 0)
           | Inr decoded \<Rightarrow> (Inr (run t decoded), 1)))"

text \<open>
  The \<^verbatim>\<open>search_quotes\<close> tool as \<^verbatim>\<open>main\<close> registers it: the name and description of the
  \<^verbatim>\<open>mcp.Tool\<close>, the shape of \<^verbatim>\<open>SearchQuotesInput\<close> (\<open>query\<close> without \<open>omitempty\<close>, \<open>limit\<close>
  with it and the documented default 5), and the handler \<open>searchQuotes\<close>.
\<close>

definition searchQuotesInputOf :: "(string \<times> wireValue) list \<Rightarrow> SearchQuotesInput" where
  "searchQuotesInputOf decoded =
     \<lparr>Query = (case map_of decoded ''query'' of Some (WString s) \<Rightarrow> s | _ \<Rightarrow> []),
      Limit = (case map_of decoded ''limit'' of Some (WNumber n) \<Rightarrow> \<lfloor>n\<rfloor> | _ \<Rightarrow> 0)\<rparr>"

definition searchQuotesTool :: "(string \<Rightarrow> string) \<Rightarrow> (quotesError + SearchQuotesOutput) Tool" where
  "searchQuotesTool lower =
     \<lparr>toolName = ''search_quotes'',
      description = ''Search for quotes by keyword in the quote text, author name, or category.'',
      inputShape =
        [\<lparr>fieldName = ''query'', fieldType = TString, required = True, defaultValue = None\<rparr>,
         \<lparr>fieldName = ''limit'', fieldType = TInteger, required = False, defaultValue = Some (WNumber 5)\<rparr>],
      run = (\<lambda>decoded. searchQuotes lower (searchQuotesInputOf decoded))\<rparr>"






section \<open>The moon phase server\<close>

subsection \<open>Floating-point arithmetic\<close>

text \<open>
  A \<^verbatim>\<open>float64\<close> value is the real number it denotes. An arithmetic operation computes
  the exact result and rounds it to the nearest number with a significand of 53 bits,
  ties to the even significand: \<open>float64\<close>. The number is scaled by the power of two
  that brings its magnitude between \<open>2^52\<close> and \<open>2^53\<close>, rounded to an integer and scaled
  back. The exponent range of the format is not modelled (the values of the moon phase
  computation are far from overflow and from the subnormal numbers), nor are infinities
  and NaN, which it cannot produce.
\<close>

definition roundHalfEven :: "real \<Rightarrow> int" where
  "roundHalfEven y =
     (let f = \<lfloor>y\<rfloor>; r = y - of_int f
      in if r < 1/2 then f else if r > 1/2 then f + 1 else if even f then f else f + 1)"

definition exponent :: "real \<Rightarrow> int" where
  "exponent x = \<lfloor>log 2 \<bar>x\<bar>\<rfloor>"

definition float64 :: "real \<Rightarrow> real" where
  "float64 x =
     (if x = 0 then 0
      else sgn x * (of_int (roundHalfEven (\<bar>x\<bar> / 2 powi (exponent x - 52))) * 2 powi (exponent x - 52)))"

subsection \<open>Time\<close>

text \<open>
  A \<^verbatim>\<open>time.Time\<close> is an instant, given by its nanoseconds since the Unix epoch (an
  integer of any size). \<^verbatim>\<open>t.Sub(u)\<close> is the difference as a \<^verbatim>\<open>Duration\<close>, a 64-bit count
  of nanoseconds, saturated at the least and the greatest duration. \<^verbatim>\<open>d.Hours()\<close>
  divides the whole hours and the remaining nanoseconds separately.
\<close>

text \<open>Integer division of Go: the quotient is truncated toward zero, the remainder has the sign of the dividend.\<close>

definition truncDiv :: "int \<Rightarrow> int \<Rightarrow> int" where
  "truncDiv a b = sgn a * sgn b * (\<bar>a\<bar> div \<bar>b\<bar>)"

definition truncRem :: "int \<Rightarrow> int \<Rightarrow> int" where
  "truncRem a b = a - truncDiv a b * b"

text \<open>The conversion \<^verbatim>\<open>int(x)\<close> of a float: the fraction is discarded.\<close>

definition truncate :: "real \<Rightarrow> int" where
  "truncate x = (if 0 \<le> x then \<lfloor>x\<rfloor> else \<lceil>x\<rceil>)"

definition knownNewMoon :: int where
  "knownNewMoon = 947182440 * 1000000000"

definition minDuration :: int where
  "minDuration = - (2 ^ 63)"

definition maxDuration :: int where
  "maxDuration = 2 ^ 63 - 1"

definition Sub :: "int \<Rightarrow> int \<Rightarrow> int" where
  "Sub t u =
     (let d = t - u
      in if d < minDuration then minDuration else if maxDuration < d then maxDuration else d)"

definition Hours :: "int \<Rightarrow> real" where
  "Hours d =
     (let hour = truncDiv d 3600000000000;
          nsec = truncRem d 3600000000000
      in float64 (float64 (of_int hour) + float64 (float64 (of_int nsec) / 3600000000000)))"

subsection \<open>The phase of the moon\<close>

text \<open>
  \<^verbatim>\<open>calculateMoonPhase\<close> and \<^verbatim>\<open>daysUntilFullMoon\<close> compute the position in the lunar
  cycle in the same way: \<open>cyclePosition\<close>. The constant \<open>29.53058867\<close> is converted to
  the nearest \<^verbatim>\<open>float64\<close>; the other constants are floats as they are. The first
  assignment to \<^verbatim>\<open>illumination\<close> in the source is overwritten before it is read and has
  no effect. An emoji is the string literal of the source, byte for byte (eight or
  nine bytes each).
\<close>

definition synodicMonth :: real where
  "synodicMonth = float64 (2953058867 / 100000000)"

definition cyclePosition :: "int \<Rightarrow> real" where
  "cyclePosition t =
     (let daysSince = float64 (Hours (Sub t knownNewMoon) / 24);
          cyclePosition0 = float64 (daysSince / synodicMonth);
          cyclePosition1 = float64 (cyclePosition0 - float64 (of_int (truncate cyclePosition0)))
      in if cyclePosition1 < 0 then float64 (cyclePosition1 + 1) else cyclePosition1)"

definition phaseOf :: "real \<Rightarrow> string \<times> string" where
  "phaseOf cp =
     (if cp < 0.0625 then (''New Moon'', [CHR 0xC3, CHR 0xB0, CHR 0xC5, CHR 0xB8, CHR 0xC5, CHR 0x92, CHR 0xE2, CHR 0x80, CHR 0x98])
      else if cp < 0.1875 then (''Waxing Crescent'', [CHR 0xC3, CHR 0xB0, CHR 0xC5, CHR 0xB8, CHR 0xC5, CHR 0x92, CHR 0xE2, CHR 0x80, CHR 0x99])
      else if cp < 0.3125 then (''First Quarter'', [CHR 0xC3, CHR 0xB0, CHR 0xC5, CHR 0xB8, CHR 0xC5, CHR 0x92, CHR 0xE2, CHR 0x80, CHR 0x9C])
      else if cp < 0.4375 then (''Waxing Gibbous'', [CHR 0xC3, CHR 0xB0, CHR 0xC5, CHR 0xB8, CHR 0xC5, CHR 0x92, CHR 0xE2, CHR 0x80, CHR 0x9D])
      else if cp < 0.5625 then (''Full Moon'', [CHR 0xC3, CHR 0xB0, CHR 0xC5, CHR 0xB8, CHR 0xC5, CHR 0x92, CHR 0xE2, CHR 0x80, CHR 0xA2])
      else if cp < 0.6875 then (''Waning Gibbous'', [CHR 0xC3, CHR 0xB0, CHR 0xC5, CHR 0xB8, CHR 0xC5, CHR 0x92, CHR 0xE2, CHR 0x80, CHR 0x93])
      else if cp < 0.8125 then (''Last Quarter'', [CHR 0xC3, CHR 0xB0, CHR 0xC5, CHR 0xB8, CHR 0xC5, CHR 0x92, CHR 0xE2, CHR 0x80, CHR 0x94])
      else if cp < 0.9375 then (''Waning Crescent'', [CHR 0xC3, CHR 0xB0, CHR 0xC5, CHR 0xB8, CHR 0xC5, CHR 0x92, CHR 0xCB, CHR 0x9C])
      else (''New Moon'', [CHR 0xC3, CHR 0xB0, CHR 0xC5, CHR 0xB8, CHR 0xC5, CHR 0x92, CHR 0xE2, CHR 0x80, CHR 0x98]))"

definition illuminationOf :: "real \<Rightarrow> real" where
  "illuminationOf cp = (if cp < 0.5 then float64 (cp * 2) else float64 (float64 (1 - cp) * 2))"

definition calculateMoonPhase :: "int \<Rightarrow> string \<times> real \<times> string" where
  "calculateMoonPhase t =
     (let cp = cyclePosition t;
          illumination = illuminationOf cp;
          (phase, emoji) = phaseOf cp
      in (phase, float64 (illumination * 100), emoji))"

definition daysUntilFullMoon :: "int \<Rightarrow> int" where
  "daysUntilFullMoon t =
     (let cp = cyclePosition t;
          daysToFull = float64 (float64 (0.5 - cp) * synodicMonth)
      in truncate (if daysToFull < 0 then float64 (daysToFull + synodicMonth) else daysToFull))"

section \<open>Properties of the quotes server\<close>

lemma Contains_sublist: "Contains s sub \<longleftrightarrow> sublist sub s"
  by (induction s) (auto simp: sublist_Cons_right)

lemma searchScan_take_filter:
  "0 < limit \<Longrightarrow> int (length results) < limit \<Longrightarrow>
   searchScan lower query limit qs results =
     results @ take (nat limit - length results) (filter (quoteMatches lower query) qs)"
proof (induction qs arbitrary: results)
  case Nil then show ?case by simp
next
  case (Cons q qs)
  show ?case
  proof (cases "quoteMatches lower query q")
    case False
    with Cons show ?thesis by simp
  next
    case True
    show ?thesis
    proof (cases "int (length (results @ [q])) \<ge> limit")
      case ge: True
      with Cons.prems have "nat limit - length results = 1" by simp
      with True ge show ?thesis by simp
    next
      case lt: False
      then have "int (length (results @ [q])) < limit" by simp
      from Cons.IH[OF Cons.prems(1) this] True lt Cons.prems
      show ?thesis by (simp add: take_Cons' ) 
    qed
  qed
qed

lemma effectiveLimit_range: "1 \<le> effectiveLimit l \<and> effectiveLimit l \<le> 10"
  by (simp add: effectiveLimit_def Let_def)

lemma searchQuotes_Inr:
  "Query input \<noteq> [] \<Longrightarrow>
   searchQuotes lower input =
     Inr \<lparr>Quotes = take (nat (effectiveLimit (Limit input)))
                      (filter (quoteMatches lower (lower (Query input))) quotes),
          Total = int (length (take (nat (effectiveLimit (Limit input)))
                      (filter (quoteMatches lower (lower (Query input))) quotes)))\<rparr>"
  using effectiveLimit_range[of "Limit input"]
  by (simp add: searchQuotes_def Let_def searchScan_take_filter)

text \<open>
  Claim C10. Whenever \<^verbatim>\<open>search_quotes\<close> returns a result, \<open>Total\<close> is the length of
  \<open>Quotes\<close>; the lowered query occurs in the lowered text, author or category of every
  returned quote; the returned quotes are a subsequence of the quote table, so they keep
  its order; and they are the first matches of the table up to the effective limit,
  which is where the scan stops.
\<close>

theorem searchQuotes_result:
  assumes "searchQuotes lower input = Inr out"
  shows "Total out = int (length (Quotes out)) \<and>
         (\<forall>q \<in> set (Quotes out).
            sublist (lower (Query input)) (lower (Text q)) \<or>
            sublist (lower (Query input)) (lower (Author q)) \<or>
            sublist (lower (Query input)) (lower (Category q))) \<and>
         subseq (Quotes out) quotes \<and>
         Quotes out = take (nat (effectiveLimit (Limit input)))
                        (filter (quoteMatches lower (lower (Query input))) quotes)"
proof -
  from assms have ne: "Query input \<noteq> []"
    by (auto simp: searchQuotes_def split: if_splits)
  define ms where "ms = filter (quoteMatches lower (lower (Query input))) quotes"
  define n where "n = nat (effectiveLimit (Limit input))"
  from assms searchQuotes_Inr[OF ne, of lower]
  have out: "out = \<lparr>Quotes = take n ms, Total = int (length (take n ms))\<rparr>"
    by (simp add: ms_def n_def)
  have q: "Quotes out = take n ms" and t: "Total out = int (length (Quotes out))"
    by (simp_all add: out)
  have m: "quoteMatches lower (lower (Query input)) q" if "q \<in> set (Quotes out)" for q
  proof -
    from that q have "q \<in> set ms" by (auto dest: in_set_takeD)
    then show ?thesis by (simp add: ms_def)
  qed
  have s: "subseq (Quotes out) quotes"
    unfolding q ms_def
    by (rule subseq_order.trans[OF sublist_imp_subseq[OF sublist_take] subseq_filter_left])
  from m have m': "\<forall>q \<in> set (Quotes out).
            sublist (lower (Query input)) (lower (Text q)) \<or>
            sublist (lower (Query input)) (lower (Author q)) \<or>
            sublist (lower (Query input)) (lower (Category q))"
    by (simp add: quoteMatches_def Contains_sublist)
  from t m' s q show ?thesis unfolding ms_def n_def by blast
qed


text \<open>The search for \<open>STEVE\<close> with limit 2 returns the first two quotes of the table.\<close>

theorem searchQuotes_result_witness:
  "searchQuotes asciiToLower \<lparr>Query = ''STEVE'', Limit = 2\<rparr> = Inr \<lparr>Quotes = take 2 quotes, Total = 2\<rparr> \<and>
   (2::int) = int (length (take 2 quotes)) \<and>
   (sublist (asciiToLower ''STEVE'') (asciiToLower (Text (quotes ! 0))) \<or>
    sublist (asciiToLower ''STEVE'') (asciiToLower (Author (quotes ! 0))) \<or>
    sublist (asciiToLower ''STEVE'') (asciiToLower (Category (quotes ! 0)))) \<and>
   (sublist (asciiToLower ''STEVE'') (asciiToLower (Text (quotes ! 1))) \<or>
    sublist (asciiToLower ''STEVE'') (asciiToLower (Author (quotes ! 1))) \<or>
    sublist (asciiToLower ''STEVE'') (asciiToLower (Category (quotes ! 1)))) \<and>
   subseq (take 2 quotes) quotes"
proof -
  have e: "searchQuotes asciiToLower \<lparr>Query = ''STEVE'', Limit = 2\<rparr> = Inr \<lparr>Quotes = take 2 quotes, Total = 2\<rparr>"
    by code_simp
  note r = searchQuotes_result[OF e, simplified SearchQuotesOutput.select_convs SearchQuotesInput.select_convs]
  have len: "length quotes = 18" by (simp add: quotes_def)
  have m0: "quotes ! 0 \<in> set (take 2 quotes)" and m1: "quotes ! 1 \<in> set (take 2 quotes)"
    by (simp_all add: in_set_conv_nth len) (rule exI[of _ 0], simp, rule exI[of _ 1], simp)
  from r have t: "(2::int) = int (length (take 2 quotes))" by (rule conjunct1)
  from r have b: "\<forall>q \<in> set (take 2 quotes).
      sublist (asciiToLower ''STEVE'') (asciiToLower (Text q)) \<or>
      sublist (asciiToLower ''STEVE'') (asciiToLower (Author q)) \<or>
      sublist (asciiToLower ''STEVE'') (asciiToLower (Category q))"
    by (rule conjunct2[THEN conjunct1])
  from r have s: "subseq (take 2 quotes) quotes"
    by (rule conjunct2[THEN conjunct2, THEN conjunct1])
  from e t bspec[OF b m0] bspec[OF b m1] s show ?thesis by (intro conjI)
qed

text \<open>
  Claim C4. For a non-empty query the search succeeds with at most 10 quotes. With a
  limit that is omitted (the zero value of the field) or not positive it returns at most
  5 quotes, and exactly what limit 5 returns; with a limit above 10 it returns exactly
  what limit 10 returns.
\<close>

theorem searchQuotes_limit:
  assumes "query \<noteq> []"
  shows "\<exists>out. searchQuotes lower \<lparr>Query = query, Limit = l\<rparr> = Inr out \<and>
           length (Quotes out) \<le> 10 \<and>
           (l \<le> 0 \<longrightarrow> length (Quotes out) \<le> 5 \<and>
                       searchQuotes lower \<lparr>Query = query, Limit = 5\<rparr> = Inr out) \<and>
           (10 < l \<longrightarrow> searchQuotes lower \<lparr>Query = query, Limit = 10\<rparr> = Inr out)"
proof -
  have r: "length (take (nat (effectiveLimit k)) xs) \<le> nat (effectiveLimit k)" for k and xs :: "Quote list"
    by simp
  have d: "l \<le> 0 \<Longrightarrow> effectiveLimit l = 5" and d5: "effectiveLimit 5 = 5"
    and c: "10 < l \<Longrightarrow> effectiveLimit l = 10" and c10: "effectiveLimit 10 = 10"
    by (simp_all add: effectiveLimit_def Let_def)
  have u: "nat (effectiveLimit l) \<le> 10"
    using effectiveLimit_range[of l] by linarith
  show ?thesis
    using assms u
    by (auto simp add: searchQuotes_Inr d d5 c c10)
qed

text \<open>The query \<open>e\<close> with limits 0 and 50: the first five and the first ten quotes of the table.\<close>

theorem searchQuotes_limit_witness:
  "searchQuotes asciiToLower \<lparr>Query = ''e'', Limit = 0\<rparr> = Inr \<lparr>Quotes = take 5 quotes, Total = 5\<rparr> \<and>
   searchQuotes asciiToLower \<lparr>Query = ''e'', Limit = 5\<rparr> = Inr \<lparr>Quotes = take 5 quotes, Total = 5\<rparr> \<and>
   searchQuotes asciiToLower \<lparr>Query = ''e'', Limit = 50\<rparr> = Inr \<lparr>Quotes = take 10 quotes, Total = 10\<rparr> \<and>
   searchQuotes asciiToLower \<lparr>Query = ''e'', Limit = 10\<rparr> = Inr \<lparr>Quotes = take 10 quotes, Total = 10\<rparr>"
proof -
  have n: "''e'' \<noteq> []" by simp
  have a: "searchQuotes asciiToLower \<lparr>Query = ''e'', Limit = 0\<rparr> = Inr \<lparr>Quotes = take 5 quotes, Total = 5\<rparr>"
    by code_simp
  have b: "searchQuotes asciiToLower \<lparr>Query = ''e'', Limit = 50\<rparr> = Inr \<lparr>Quotes = take 10 quotes, Total = 10\<rparr>"
    by code_simp
  from searchQuotes_limit[OF n, of asciiToLower 0] a
  have a5: "searchQuotes asciiToLower \<lparr>Query = ''e'', Limit = 5\<rparr> = Inr \<lparr>Quotes = take 5 quotes, Total = 5\<rparr>"
    by auto
  from searchQuotes_limit[OF n, of asciiToLower 50] b
  have b10: "searchQuotes asciiToLower \<lparr>Query = ''e'', Limit = 10\<rparr> = Inr \<lparr>Quotes = take 10 quotes, Total = 10\<rparr>"
    by auto
  from a a5 b b10 show ?thesis by blast
qed

lemma localQuote_cases:
  assumes "GetRandomQuoteInput.Category input \<noteq> []"
  shows "case localQuote lower pick input of
           Inr q \<Rightarrow> q \<in> set quotes \<and> lower (Category q) = lower (GetRandomQuoteInput.Category input)
         | Inl e \<Rightarrow> e = NoQuotesForCategory (GetRandomQuoteInput.Category input) \<and>
                    (\<forall>q \<in> set quotes. lower (Category q) \<noteq> lower (GetRandomQuoteInput.Category input))"
proof -
  define fs where "fs = filter (\<lambda>q. lower (Category q) = lower (GetRandomQuoteInput.Category input)) quotes"
  show ?thesis
  proof (cases "fs = []")
    case True
    then have "\<forall>q \<in> set quotes. lower (Category q) \<noteq> lower (GetRandomQuoteInput.Category input)"
      by (simp add: fs_def filter_empty_conv)
    with True assms show ?thesis by (simp add: localQuote_def Let_def fs_def)
  next
    case False
    then have "pick mod length fs < length fs" by simp
    then have "fs ! (pick mod length fs) \<in> set fs" by (rule nth_mem)
    then have "fs ! (pick mod length fs) \<in> set quotes \<and>
               lower (Category (fs ! (pick mod length fs))) = lower (GetRandomQuoteInput.Category input)"
      by (simp add: fs_def)
    with False assms show ?thesis by (simp add: localQuote_def Let_def fs_def)
  qed
qed

text \<open>
  Claim C3, as the code has it. The API quote is returned when the fetch succeeds and no
  category is given. When a category is given, the outcome of the fetch is not used: the
  result is a quote of the static table whose lowered category equals the lowered
  argument, or the error \<open>NoQuotesForCategory\<close> when the table has none.
\<close>

theorem getRandomQuote_category:
  "(fetchQuoteFromAPI reply = Inr quote \<and> GetRandomQuoteInput.Category input = [] \<longrightarrow>
      getRandomQuote lower reply pick input = Inr quote) \<and>
   (GetRandomQuoteInput.Category input \<noteq> [] \<longrightarrow>
      (case getRandomQuote lower reply pick input of
         Inr q \<Rightarrow> q \<in> set quotes \<and> lower (Category q) = lower (GetRandomQuoteInput.Category input)
       | Inl e \<Rightarrow> e = NoQuotesForCategory (GetRandomQuoteInput.Category input) \<and>
                  (\<forall>q \<in> set quotes. lower (Category q) \<noteq> lower (GetRandomQuoteInput.Category input))))"
proof (intro conjI impI)
  assume "fetchQuoteFromAPI reply = Inr quote \<and> GetRandomQuoteInput.Category input = []"
  then show "getRandomQuote lower reply pick input = Inr quote"
    by (simp add: getRandomQuote_def)
next
  assume ne: "GetRandomQuoteInput.Category input \<noteq> []"
  then have "getRandomQuote lower reply pick input = localQuote lower pick input"
    by (simp add: getRandomQuote_def split: sum.splits)
  with localQuote_cases[OF ne, of lower pick]
  show "case getRandomQuote lower reply pick input of
         Inr q \<Rightarrow> q \<in> set quotes \<and> lower (Category q) = lower (GetRandomQuoteInput.Category input)
       | Inl e \<Rightarrow> e = NoQuotesForCategory (GetRandomQuoteInput.Category input) \<and>
                  (\<forall>q \<in> set quotes. lower (Category q) \<noteq> lower (GetRandomQuoteInput.Category input))"
    by simp
qed

theorem getRandomQuote_category_witness:
  "getRandomQuote asciiToLower (Response 200 (Inr [(''Q'', ''A'')])) 0 \<lparr>GetRandomQuoteInput.Category = []\<rparr> =
     Inr \<lparr>Text = ''Q'', Author = ''A'', Category = []\<rparr> \<and>
   getRandomQuote asciiToLower (RequestFailed ''timeout'') 7 \<lparr>GetRandomQuoteInput.Category = ''LIFE''\<rparr> =
     Inr (quotes ! 3) \<and>
   quotes ! 3 \<in> set quotes \<and>
   asciiToLower (Category (quotes ! 3)) = asciiToLower ''LIFE''"
proof -
  have f: "fetchQuoteFromAPI (Response 200 (Inr [(''Q'', ''A'')])) = Inr \<lparr>Text = ''Q'', Author = ''A'', Category = []\<rparr>"
    by simp
  have a: "getRandomQuote asciiToLower (Response 200 (Inr [(''Q'', ''A'')])) 0 \<lparr>GetRandomQuoteInput.Category = []\<rparr> =
     Inr \<lparr>Text = ''Q'', Author = ''A'', Category = []\<rparr>"
    using getRandomQuote_category[of "Response 200 (Inr [(''Q'', ''A'')])" "\<lparr>Text = ''Q'', Author = ''A'', Category = []\<rparr>"
        "\<lparr>GetRandomQuoteInput.Category = []\<rparr>" asciiToLower 0] f
    by simp
  have r: "getRandomQuote asciiToLower (RequestFailed ''timeout'') 7 \<lparr>GetRandomQuoteInput.Category = ''LIFE''\<rparr> =
     Inr (quotes ! 3)"
    by code_simp
  have b: "quotes ! 3 \<in> set quotes \<and> asciiToLower (Category (quotes ! 3)) = asciiToLower ''LIFE''"
    using getRandomQuote_category[of "RequestFailed ''timeout''" undefined
        "\<lparr>GetRandomQuoteInput.Category = ''LIFE''\<rparr>" asciiToLower 7]
    by (simp add: r)
  from a r b show ?thesis by blast
qed

text \<open>
  Claim C3 as stated fails: the fetch succeeds with the quote \<open>Q\<close> by \<open>A\<close>, the category
  \<open>wisdom\<close> is given, and the handler returns the first wisdom quote of the static table,
  not the API quote.
\<close>

theorem getRandomQuote_api_ignores_category_counterexample:
  "fetchQuoteFromAPI (Response 200 (Inr [(''Q'', ''A'')])) = Inr \<lparr>Text = ''Q'', Author = ''A'', Category = []\<rparr> \<and>
   getRandomQuote asciiToLower (Response 200 (Inr [(''Q'', ''A'')])) 0 \<lparr>GetRandomQuoteInput.Category = ''wisdom''\<rparr> =
     Inr \<lparr>Text = ''It is during our darkest moments that we must focus to see the light.'',
          Author = ''Aristotle'', Category = ''wisdom''\<rparr> \<and>
   getRandomQuote asciiToLower (Response 200 (Inr [(''Q'', ''A'')])) 0 \<lparr>GetRandomQuoteInput.Category = ''wisdom''\<rparr> \<noteq>
     Inr \<lparr>Text = ''Q'', Author = ''A'', Category = []\<rparr>"
  by code_simp

section \<open>Properties of the HTTP layer\<close>

lemma wire_httpWriteHeader: "wire (httpWriteHeader w code) = wire w"
  by (simp add: httpWriteHeader_def split: option.splits)

lemma wire_httpWrite: "wire (fst (httpWrite w b)) = wire w @ b"
  by (simp add: httpWrite_def Let_def wire_httpWriteHeader)

lemma snd_httpWrite: "snd (httpWrite w b) = int (length b)"
  by (simp add: httpWrite_def Let_def)

lemma Write_forwards:
  "ResponseWriter (fst (Write rw b)) = fst (httpWrite (ResponseWriter rw) b) \<and>
   snd (Write rw b) = int (length b)"
  by (simp add: Write_def Let_def split_beta snd_httpWrite)

lemma wire_Write: "wire (ResponseWriter (fst (Write rw b))) = wire (ResponseWriter rw) @ b"
  by (simp add: Write_forwards wire_httpWrite)

lemma wire_Writes: "wire (ResponseWriter (Writes rw bs)) = wire (ResponseWriter rw) @ concat bs"
  by (induction bs arbitrary: rw) (simp_all add: wire_Write)

lemma Write_streaming:
  "isStreaming rw \<Longrightarrow> body (fst (Write rw b)) = body rw \<and> isStreaming (fst (Write rw b))"
  by (simp add: Write_def Let_def split_beta)

lemma Writes_streaming:
  "isStreaming rw \<Longrightarrow> body (Writes rw bs) = body rw \<and> isStreaming (Writes rw bs)"
  by (induction bs arbitrary: rw) (simp_all add: Write_streaming)

lemma length_capture: "(case bd of None \<Rightarrow> 0 | Some bs \<Rightarrow> length bs) \<le> 1024 \<Longrightarrow>
   (case capture bd b of None \<Rightarrow> 0 | Some bs \<Rightarrow> length bs) \<le> 1024"
  by (auto simp: capture_def Let_def split: option.splits)

lemma capturedLen_Write: "capturedLen rw \<le> 1024 \<Longrightarrow> capturedLen (fst (Write rw b)) \<le> 1024"
  using length_capture[of "body rw" b]
  by (simp add: capturedLen_def Write_def Let_def split_beta)

lemma capturedLen_Writes: "capturedLen rw \<le> 1024 \<Longrightarrow> capturedLen (Writes rw bs) \<le> 1024"
  by (induction bs arbitrary: rw) (simp_all add: capturedLen_Write)

lemma capture_take:
  "capture (Some (take 1024 xs)) b = Some (take 1024 (xs @ b))"
  by (auto simp: capture_def Let_def min_def take_all)

lemma capture_None: "capture None b = Some (take 1024 b)"
  by (auto simp: capture_def Let_def)

lemma Write_not_streaming:
  "\<not> isStreaming rw \<Longrightarrow> body (fst (Write rw b)) = capture (body rw) b \<and> \<not> isStreaming (fst (Write rw b))"
  by (simp add: Write_def Let_def split_beta)

lemma Writes_capture_Some:
  "\<not> isStreaming rw \<Longrightarrow> body rw = Some (take 1024 xs) \<Longrightarrow>
   body (Writes rw bs) = Some (take 1024 (xs @ concat bs))"
proof (induction bs arbitrary: rw xs)
  case Nil then show ?case by simp
next
  case (Cons b bs)
  from Cons.prems have "\<not> isStreaming (fst (Write rw b))"
    and "body (fst (Write rw b)) = Some (take 1024 (xs @ b))"
    by (simp_all add: Write_not_streaming capture_take)
  from Cons.IH[OF this] show ?case by simp
qed

lemma Writes_capture_None:
  assumes "\<not> isStreaming rw" "body rw = None" "bs \<noteq> []"
  shows "body (Writes rw bs) = Some (take 1024 (concat bs))"
proof -
  from assms(3) obtain b bs' where bs: "bs = b # bs'" by (cases bs) auto
  from assms have "\<not> isStreaming (fst (Write rw b))"
    and "body (fst (Write rw b)) = Some (take 1024 ([] @ b))"
    by (simp_all add: Write_not_streaming capture_None)
  from Writes_capture_Some[OF this] show ?thesis by (simp add: bs)
qed

lemma WriteHeader_streaming:
  "isStreaming (WriteHeader rw code) = (headerGet (hdr (ResponseWriter rw)) ''Content-Type'' = ''text/event-stream'')"
  "body (WriteHeader rw code) = body rw"
  "wire (ResponseWriter (WriteHeader rw code)) = wire (ResponseWriter rw)"
  by (simp_all add: WriteHeader_def wire_httpWriteHeader)

text \<open>
  After a call of \<^verbatim>\<open>WriteHeader\<close> with the Content-Type \<open>text/event-stream\<close>, a sequence
  of \<^verbatim>\<open>Write\<close> calls with no further \<^verbatim>\<open>WriteHeader\<close> between them leaves the capture
  buffer as it was, and the bytes of every call reach the underlying writer unchanged
  and in order.
\<close>

lemma streaming_writes_not_captured:
  assumes "headerGet (hdr (ResponseWriter rw)) ''Content-Type'' = ''text/event-stream''"
  shows "body (Writes (WriteHeader rw code) bs) = body rw \<and>
         capturedLen (Writes (WriteHeader rw code) bs) = capturedLen rw \<and>
         wire (ResponseWriter (Writes (WriteHeader rw code) bs)) = wire (ResponseWriter rw) @ concat bs"
proof -
  from assms have s: "isStreaming (WriteHeader rw code)"
    by (simp add: WriteHeader_streaming)
  from Writes_streaming[OF s, of bs]
  have b: "body (Writes (WriteHeader rw code) bs) = body rw"
    by (simp add: WriteHeader_streaming)
  then have c: "capturedLen (Writes (WriteHeader rw code) bs) = capturedLen rw"
    by (simp add: capturedLen_def)
  have w: "wire (ResponseWriter (Writes (WriteHeader rw code) bs)) = wire (ResponseWriter rw) @ concat bs"
    by (simp add: wire_Writes WriteHeader_streaming)
  from b c w show ?thesis by blast
qed

text \<open>
  Claim C2. A capture buffer of at most 1024 bytes stays at most 1024 bytes long after a
  \<^verbatim>\<open>Write\<close>, and after any sequence of them; each \<^verbatim>\<open>Write\<close> hands its whole slice to the
  underlying writer and returns what that writer returns, so the bytes sent to the
  client are all the bytes written, whatever the cap.
\<close>

theorem capture_bounded_and_forwarding:
  assumes "capturedLen rw \<le> 1024"
  shows "capturedLen (fst (Write rw b)) \<le> 1024 \<and>
         ResponseWriter (fst (Write rw b)) = fst (httpWrite (ResponseWriter rw) b) \<and>
         wire (ResponseWriter (fst (Write rw b))) = wire (ResponseWriter rw) @ b \<and>
         snd (Write rw b) = int (length b) \<and>
         capturedLen (Writes rw bs) \<le> 1024 \<and>
         wire (ResponseWriter (Writes rw bs)) = wire (ResponseWriter rw) @ concat bs"
  using assms
  by (simp add: capturedLen_Write capturedLen_Writes wire_Write wire_Writes Write_forwards wire_httpWrite)


text \<open>A new wrapper on an event-stream response, and two writes.\<close>

lemma streaming_writes_not_captured_example:
  "headerGet (hdr (ResponseWriter
      \<lparr>ResponseWriter = setHeader newResponse ''Content-Type'' ''text/event-stream'',
       statusCode = 0, headers = Map.empty, body = None, isStreaming = False\<rparr>)) ''Content-Type'' = ''text/event-stream'' \<and>
   body (Writes (WriteHeader
      \<lparr>ResponseWriter = setHeader newResponse ''Content-Type'' ''text/event-stream'',
       statusCode = 0, headers = Map.empty, body = None, isStreaming = False\<rparr> 200)
      [''data: a'', ''data: b'']) = None \<and>
   capturedLen (Writes (WriteHeader
      \<lparr>ResponseWriter = setHeader newResponse ''Content-Type'' ''text/event-stream'',
       statusCode = 0, headers = Map.empty, body = None, isStreaming = False\<rparr> 200)
      [''data: a'', ''data: b'']) = 0 \<and>
   wire (ResponseWriter (Writes (WriteHeader
      \<lparr>ResponseWriter = setHeader newResponse ''Content-Type'' ''text/event-stream'',
       statusCode = 0, headers = Map.empty, body = None, isStreaming = False\<rparr> 200)
      [''data: a'', ''data: b''])) = ''data: adata: b''"
proof -
  define rw where "rw = \<lparr>ResponseWriter = setHeader newResponse ''Content-Type'' ''text/event-stream'',
       statusCode = 0, headers = Map.empty, body = None, isStreaming = False\<rparr>"
  have h: "headerGet (hdr (ResponseWriter rw)) ''Content-Type'' = ''text/event-stream''"
    by (simp add: rw_def setHeader_def headerSet_def headerGet_def newResponse_def)
  have i: "body rw = None" "capturedLen rw = 0" "wire (ResponseWriter rw) = []"
    by (simp_all add: rw_def capturedLen_def setHeader_def newResponse_def)
  from streaming_writes_not_captured[OF h, of 200 "[''data: a'', ''data: b'']"] h
  show ?thesis unfolding rw_def[symmetric] by (simp add: i del: Writes.simps)
qed


text \<open>Writes of 1000 and 100 bytes: 1024 bytes are captured, 1100 are sent.\<close>

theorem capture_bounded_and_forwarding_witness:
  "capturedLen \<lparr>ResponseWriter = newResponse, statusCode = 0, headers = Map.empty, body = None, isStreaming = False\<rparr> \<le> 1024 \<and>
   capturedLen (Writes \<lparr>ResponseWriter = newResponse, statusCode = 0, headers = Map.empty, body = None, isStreaming = False\<rparr>
      [replicate 1000 CHR ''a'', replicate 100 CHR ''b'']) \<le> 1024 \<and>
   body (Writes \<lparr>ResponseWriter = newResponse, statusCode = 0, headers = Map.empty, body = None, isStreaming = False\<rparr>
      [replicate 1000 CHR ''a'', replicate 100 CHR ''b'']) = Some (replicate 1000 CHR ''a'' @ replicate 24 CHR ''b'') \<and>
   wire (ResponseWriter (Writes \<lparr>ResponseWriter = newResponse, statusCode = 0, headers = Map.empty, body = None, isStreaming = False\<rparr>
      [replicate 1000 CHR ''a'', replicate 100 CHR ''b''])) = replicate 1000 CHR ''a'' @ replicate 100 CHR ''b''"
proof -
  define rw where "rw = \<lparr>ResponseWriter = newResponse, statusCode = 0, headers = Map.empty, body = None, isStreaming = False\<rparr>"
  have c: "capturedLen rw \<le> 1024" by (simp add: rw_def capturedLen_def)
  have b: "body (Writes rw [replicate 1000 CHR ''a'', replicate 100 CHR ''b'']) =
             Some (replicate 1000 CHR ''a'' @ replicate 24 CHR ''b'')"
  proof -
    have "\<not> isStreaming rw" and "body rw = None" by (simp_all add: rw_def)
    from Writes_capture_None[OF this, of "[replicate 1000 CHR ''a'', replicate 100 CHR ''b'']"]
    show ?thesis by (simp del: Writes.simps)
  qed
  have w: "wire (ResponseWriter rw) = []" by (simp add: rw_def newResponse_def)
  from capture_bounded_and_forwarding[OF c, of "[]" "[replicate 1000 CHR ''a'', replicate 100 CHR ''b'']"] c b
  show ?thesis unfolding rw_def[symmetric] by (simp add: w del: Writes.simps)
qed

lemma corsMiddleware_OPTIONS:
  "Method r = ''OPTIONS'' \<Longrightarrow>
   corsMiddleware next w r =
     httpWriteHeader
       (setHeader (setHeader (setHeader (setHeader w
          ''Access-Control-Allow-Origin'' ''*'')
          ''Access-Control-Allow-Methods'' ''GET, POST, OPTIONS'')
          ''Access-Control-Allow-Headers'' ''Content-Type, Authorization'')
          ''Access-Control-Expose-Headers'' ''Mcp-Session-Id, Content-Type, Cache-Control'') 200"
  by (simp add: corsMiddleware_def Let_def)

text \<open>
  Claim C7. For an \<open>OPTIONS\<close> request to \<open>/mcp\<close> on a response not yet committed, the
  server (with the CORS flag set, its default) answers through the middleware, which
  commits status 200 with the four CORS headers and writes no body byte. The answer is
  the same whatever the wrapped handler is, and so whatever tools it serves: the request
  is not forwarded.
\<close>

theorem cors_preflight:
  assumes "Method r = ''OPTIONS''" and "Path r = ''/mcp''" and "committed w = None"
  shows "serveMux m True next w r = corsMiddleware next w r \<and>
         statusOf (corsMiddleware next w r) = Some 200 \<and>
         wire (corsMiddleware next w r) = wire w \<and>
         sentHeader (corsMiddleware next w r) ''Access-Control-Allow-Origin'' = Some [''*''] \<and>
         sentHeader (corsMiddleware next w r) ''Access-Control-Allow-Methods'' = Some [''GET, POST, OPTIONS''] \<and>
         sentHeader (corsMiddleware next w r) ''Access-Control-Allow-Headers'' = Some [''Content-Type, Authorization''] \<and>
         sentHeader (corsMiddleware next w r) ''Access-Control-Expose-Headers'' =
           Some [''Mcp-Session-Id, Content-Type, Cache-Control''] \<and>
         (\<forall>next'. corsMiddleware next' w r = corsMiddleware next w r)"
  using assms
  by (simp add: serveMux_def corsMiddleware_OPTIONS httpWriteHeader_def setHeader_def headerSet_def
      statusOf_def sentHeader_def)

text \<open>A preflight request to \<open>/mcp\<close> of the quotes server, in front of a handler that would write a body.\<close>

theorem cors_preflight_witness:
  "statusOf (serveMux quotesMain True (\<lambda>w r. fst (httpWrite w ''tools''))
      newResponse \<lparr>Method = ''OPTIONS'', Path = ''/mcp'', RemoteAddr = ''10.0.0.1:4000''\<rparr>) = Some 200 \<and>
   wire (serveMux quotesMain True (\<lambda>w r. fst (httpWrite w ''tools''))
      newResponse \<lparr>Method = ''OPTIONS'', Path = ''/mcp'', RemoteAddr = ''10.0.0.1:4000''\<rparr>) = [] \<and>
   sentHeader (serveMux quotesMain True (\<lambda>w r. fst (httpWrite w ''tools''))
      newResponse \<lparr>Method = ''OPTIONS'', Path = ''/mcp'', RemoteAddr = ''10.0.0.1:4000''\<rparr>)
      ''Access-Control-Expose-Headers'' = Some [''Mcp-Session-Id, Content-Type, Cache-Control'']"
proof -
  have m: "Method \<lparr>Method = ''OPTIONS'', Path = ''/mcp'', RemoteAddr = ''10.0.0.1:4000''\<rparr> = ''OPTIONS''"
    and p: "Path \<lparr>Method = ''OPTIONS'', Path = ''/mcp'', RemoteAddr = ''10.0.0.1:4000''\<rparr> = ''/mcp''"
    by simp_all
  have c: "committed newResponse = None" and w: "wire newResponse = []"
    by (simp_all add: newResponse_def)
  from cors_preflight[OF m p c, of quotesMain "\<lambda>w r. fst (httpWrite w ''tools'')"]
  show ?thesis by (simp add: w)
qed

lemma healthHandler_uncommitted:
  assumes "committed w = None"
  shows "statusOf (healthHandler m corsFlag w r) = Some 200 \<and>
         sentHeader (healthHandler m corsFlag w r) ''Content-Type'' = Some [''application/json''] \<and>
         wire (healthHandler m corsFlag w r) = wire w @ Encode (healthDocument m)"
  using assms
  by (simp add: healthHandler_def Let_def httpWrite_def httpWriteHeader_def setHeader_def
      headerSet_def statusOf_def sentHeader_def)

lemma healthDocument_identity:
  assumes "m \<in> {quotesMain, weatherMain, moonMain}"
  shows "healthDocument m =
           [(''status'', ''ok''), (''server'', Name (implementation m)),
            (''version'', Version (implementation m)), (''mcp_endpoint'', ''/mcp'')]"
  using assms by (auto simp: quotesMain_def weatherMain_def moonMain_def)

text \<open>
  Claim C8. For each of the three servers, a request to \<open>/health\<close> (with \<open>GET\<close> or any
  other method) on a response not yet committed is answered with status 200, the
  Content-Type \<open>application/json\<close> and, as the whole body, the encoding of the object with
  the members \<open>status = ok\<close>, \<open>server\<close> and \<open>version\<close> (the name and version given to
  \<^verbatim>\<open>mcp.NewServer\<close>) and \<open>mcp_endpoint = /mcp\<close>. The answer is the same whatever the
  handler of the tools is: it is not called.
\<close>

theorem health_endpoint:
  assumes "m \<in> {quotesMain, weatherMain, moonMain}"
    and "Path r = ''/health''" and "committed w = None"
  shows "statusOf (serveMux m corsFlag handler w r) = Some 200 \<and>
         sentHeader (serveMux m corsFlag handler w r) ''Content-Type'' = Some [''application/json''] \<and>
         wire (serveMux m corsFlag handler w r) =
           wire w @ Encode [(''status'', ''ok''), (''server'', Name (implementation m)),
                            (''version'', Version (implementation m)), (''mcp_endpoint'', ''/mcp'')] \<and>
         (\<forall>handler'. serveMux m corsFlag handler' w r = serveMux m corsFlag handler w r)"
proof -
  from assms(2) have s: "serveMux m corsFlag h w r = healthHandler m corsFlag w r" for h
    by (simp add: serveMux_def)
  from healthHandler_uncommitted[OF assms(3), of m corsFlag r] healthDocument_identity[OF assms(1)]
  show ?thesis by (simp add: s)
qed

text \<open>The health check of the quotes server, with the body as the encoder writes it (keys sorted).\<close>

theorem health_endpoint_witness:
  "statusOf (serveMux quotesMain True (\<lambda>w r. fst (httpWrite w ''tools'')) newResponse
      \<lparr>Method = ''GET'', Path = ''/health'', RemoteAddr = ''10.0.0.1:4000''\<rparr>) = Some 200 \<and>
   sentHeader (serveMux quotesMain True (\<lambda>w r. fst (httpWrite w ''tools'')) newResponse
      \<lparr>Method = ''GET'', Path = ''/health'', RemoteAddr = ''10.0.0.1:4000''\<rparr>) ''Content-Type'' =
      Some [''application/json''] \<and>
   wire (serveMux quotesMain True (\<lambda>w r. fst (httpWrite w ''tools'')) newResponse
      \<lparr>Method = ''GET'', Path = ''/health'', RemoteAddr = ''10.0.0.1:4000''\<rparr>) =
      ''{'' @ [CHR 0x22] @ ''mcp_endpoint'' @ [CHR 0x22] @ '':'' @ [CHR 0x22] @ ''/mcp'' @ [CHR 0x22] @ '','' @
      [CHR 0x22] @ ''server'' @ [CHR 0x22] @ '':'' @ [CHR 0x22] @ ''quotes-server'' @ [CHR 0x22] @ '','' @
      [CHR 0x22] @ ''status'' @ [CHR 0x22] @ '':'' @ [CHR 0x22] @ ''ok'' @ [CHR 0x22] @ '','' @
      [CHR 0x22] @ ''version'' @ [CHR 0x22] @ '':'' @ [CHR 0x22] @ ''1.0.0'' @ [CHR 0x22] @ ''}'' @ [CHR 0x0A]"
proof -
  have m: "quotesMain \<in> {quotesMain, weatherMain, moonMain}" by simp
  have p: "Path \<lparr>Method = ''GET'', Path = ''/health'', RemoteAddr = ''10.0.0.1:4000''\<rparr> = ''/health''"
    by simp
  have c: "committed newResponse = None" and w: "wire newResponse = []"
    by (simp_all add: newResponse_def)
  have e: "Encode [(''status'', ''ok''), (''server'', Name (implementation quotesMain)),
                   (''version'', Version (implementation quotesMain)), (''mcp_endpoint'', ''/mcp'')] =
      ''{'' @ [CHR 0x22] @ ''mcp_endpoint'' @ [CHR 0x22] @ '':'' @ [CHR 0x22] @ ''/mcp'' @ [CHR 0x22] @ '','' @
      [CHR 0x22] @ ''server'' @ [CHR 0x22] @ '':'' @ [CHR 0x22] @ ''quotes-server'' @ [CHR 0x22] @ '','' @
      [CHR 0x22] @ ''status'' @ [CHR 0x22] @ '':'' @ [CHR 0x22] @ ''ok'' @ [CHR 0x22] @ '','' @
      [CHR 0x22] @ ''version'' @ [CHR 0x22] @ '':'' @ [CHR 0x22] @ ''1.0.0'' @ [CHR 0x22] @ ''}'' @ [CHR 0x0A]"
    by code_simp
  from health_endpoint[OF m p c, of True "\<lambda>w r. fst (httpWrite w ''tools'')"]
  show ?thesis unfolding e w by simp
qed

section \<open>Properties of the weather server\<close>







section \<open>Properties of the dispatcher\<close>

lemma sublist_append_left: "sublist xs (ys @ xs)"
  by (rule suffix_imp_sublist) (simp add: suffix_def)

lemma decodeField_Inl:
  assumes "decodeField f args = Inl msg"
  shows "sublist (fieldName f) msg \<and>
   (required f \<and> map_of args (fieldName f) = None \<and> msg = ''missing required field: '' @ fieldName f \<or>
    (\<exists>v. map_of args (fieldName f) = Some v \<and> \<not> hasType v (fieldType f)))"
proof (cases "map_of args (fieldName f)")
  case None
  with assms have r: "required f" and m: "msg = ''missing required field: '' @ fieldName f"
    by (auto simp: decodeField_def split: option.splits if_splits)
  from m have "sublist (fieldName f) msg" by (simp only: sublist_append_left)
  with r m None show ?thesis by blast
next
  case (Some v)
  with assms have t: "\<not> hasType v (fieldType f)" and m: "msg = ''wrong type for field: '' @ fieldName f"
    by (auto simp: decodeField_def split: if_splits)
  from m have "sublist (fieldName f) msg" by (simp only: sublist_append_left)
  with t Some show ?thesis by blast
qed

lemma decodeField_missing:
  "required f \<Longrightarrow> map_of args (fieldName f) = None \<Longrightarrow>
   decodeField f args = Inl (''missing required field: '' @ fieldName f)"
  by (simp add: decodeField_def)

lemma decodeArguments_Inl:
  "decodeArguments fs args = Inl msg \<Longrightarrow>
   \<exists>g \<in> set fs. sublist (fieldName g) msg \<and>
     (required g \<and> map_of args (fieldName g) = None \<and> msg = ''missing required field: '' @ fieldName g \<or>
      (\<exists>v. map_of args (fieldName g) = Some v \<and> \<not> hasType v (fieldType g)))"
proof (induction fs)
  case Nil then show ?case by simp
next
  case (Cons f fs)
  show ?case
  proof (cases "decodeField f args")
    case (Inl m)
    with Cons.prems have "m = msg" by simp
    with decodeField_Inl[of f args msg] Inl show ?thesis by auto
  next
    case (Inr x)
    with Cons.prems have "decodeArguments fs args = Inl msg"
      by (simp split: sum.splits)
    from Cons.IH[OF this] show ?thesis by auto
  qed
qed

lemma decodeArguments_missing:
  "f \<in> set fs \<Longrightarrow> required f \<Longrightarrow> map_of args (fieldName f) = None \<Longrightarrow>
   \<exists>msg. decodeArguments fs args = Inl msg"
proof (induction fs)
  case Nil then show ?case by simp
next
  case (Cons g fs)
  show ?case
  proof (cases "decodeField g args")
    case (Inl m) then show ?thesis by simp
  next
    case (Inr x)
    with Cons.prems decodeField_missing[of g args] have "f \<in> set fs" by auto
    from Cons.IH[OF this Cons.prems(2,3)] Inr show ?thesis by auto
  qed
qed

text \<open>
  Claim C5. When the arguments of a call to a registered tool miss a required field of
  its input shape, the call fails with kind \<open>InvalidArguments\<close>, the message names a field
  of the shape that the arguments fail on (missing though required, or of the wrong
  type; the first such field of the shape), and the handler is not invoked.
\<close>

theorem missing_required_field:
  assumes "resolve registry name = Some t"
    and "f \<in> set (inputShape t)" and "required f" and "map_of args (fieldName f) = None"
  shows "\<exists>msg g. toolsCall registry name args = (Inl (InvalidArguments, msg), 0) \<and>
           g \<in> set (inputShape t) \<and> sublist (fieldName g) msg \<and>
           (required g \<and> map_of args (fieldName g) = None \<and> msg = ''missing required field: '' @ fieldName g \<or>
            (\<exists>v. map_of args (fieldName g) = Some v \<and> \<not> hasType v (fieldType g)))"
proof -
  from decodeArguments_missing[OF assms(2,3,4)]
  obtain msg where m: "decodeArguments (inputShape t) args = Inl msg" by blast
  from decodeArguments_Inl[OF m] obtain g where
    "g \<in> set (inputShape t)" "sublist (fieldName g) msg"
    "required g \<and> map_of args (fieldName g) = None \<and> msg = ''missing required field: '' @ fieldName g \<or>
            (\<exists>v. map_of args (fieldName g) = Some v \<and> \<not> hasType v (fieldType g))"
    by blast
  moreover from assms(1) m have "toolsCall registry name args = (Inl (InvalidArguments, msg), 0)"
    by (simp add: toolsCall_def)
  ultimately show ?thesis by blast
qed


text \<open>\<^verbatim>\<open>search_quotes\<close> called with a limit and no query.\<close>

theorem missing_required_field_witness:
  "toolsCall [searchQuotesTool asciiToLower] ''search_quotes'' [(''limit'', WNumber 3)] =
     (Inl (InvalidArguments, ''missing required field: query''), 0) \<and>
   sublist ''query'' ''missing required field: query''"
proof -
  define t where "t = searchQuotesTool asciiToLower"
  define f where "f = \<lparr>fieldName = ''query'', fieldType = TString, required = True, defaultValue = None\<rparr>"
  have r: "resolve [t] ''search_quotes'' = Some t"
    by (simp add: resolve_def t_def searchQuotesTool_def)
  have i: "f \<in> set (inputShape t)" by (simp add: t_def f_def searchQuotesTool_def)
  have q: "required f" by (simp add: f_def)
  have n: "map_of [(''limit'', WNumber 3)] (fieldName f) = None" by (simp add: f_def)
  have e: "toolsCall [t] ''search_quotes'' [(''limit'', WNumber 3)] =
     (Inl (InvalidArguments, ''missing required field: query''), 0)"
    unfolding toolsCall_def r option.case
    by (simp add: t_def searchQuotesTool_def decodeField_def)
  from missing_required_field[OF r i q n] e
  have "sublist ''query'' ''missing required field: query''"
    by (auto simp: t_def searchQuotesTool_def)
  with e show ?thesis unfolding t_def by blast
qed

section \<open>Properties of the moon phase server\<close>

subsection \<open>Rounding\<close>

lemma roundHalfEven_mono: "y \<le> z \<Longrightarrow> roundHalfEven y \<le> roundHalfEven z"
proof -
  assume yz: "y \<le> z"
  then have f: "\<lfloor>y\<rfloor> \<le> \<lfloor>z\<rfloor>" by (rule floor_mono)
  have ry: "\<lfloor>y\<rfloor> \<le> roundHalfEven y" "roundHalfEven y \<le> \<lfloor>y\<rfloor> + 1"
    and rz: "\<lfloor>z\<rfloor> \<le> roundHalfEven z" "roundHalfEven z \<le> \<lfloor>z\<rfloor> + 1"
    by (simp_all add: roundHalfEven_def Let_def)
  show ?thesis
  proof (cases "\<lfloor>y\<rfloor> = \<lfloor>z\<rfloor>")
    case False
    with f ry rz show ?thesis by linarith
  next
    case True
    with yz show ?thesis
      by (auto simp: roundHalfEven_def Let_def)
  qed
qed

lemma roundHalfEven_of_int [simp]: "roundHalfEven (of_int n) = n"
  by (simp add: roundHalfEven_def)

lemma powr2_int: "2 powr (real_of_int e) = (2::real) powi e"
  by (simp add: powr_real_of_int')

lemma powr2_int_Suc: "2 powr (real_of_int e + 1) = (2::real) powi (e + 1)"
  using powr2_int[of "e + 1"] by simp

lemma exponent_bounds:
  assumes "x \<noteq> 0"
  shows "2 powi (exponent x) \<le> \<bar>x\<bar>" and "\<bar>x\<bar> < 2 powi (exponent x + 1)"
proof -
  from assms have p: "\<bar>x\<bar> > 0" by simp
  have "\<lfloor>log 2 \<bar>x\<bar>\<rfloor> = exponent x" by (simp add: exponent_def)
  with floor_log_eq_powr_iff[OF p, of 2 "exponent x"]
  have "2 powr (real_of_int (exponent x)) \<le> \<bar>x\<bar> \<and> \<bar>x\<bar> < 2 powr (real_of_int (exponent x) + 1)" by simp
  then show "2 powi (exponent x) \<le> \<bar>x\<bar>" and "\<bar>x\<bar> < 2 powi (exponent x + 1)"
    unfolding powr2_int powr2_int_Suc by blast+
qed

lemma exponent_unique:
  assumes "2 powi e \<le> \<bar>x\<bar>" and "\<bar>x\<bar> < 2 powi (e + 1)"
  shows "exponent x = e"
proof -
  have "(0::real) < 2 powi e" by simp
  with assms(1) have p: "\<bar>x\<bar> > 0" by linarith
  from assms have "2 powr (real_of_int e) \<le> \<bar>x\<bar> \<and> \<bar>x\<bar> < 2 powr (real_of_int e + 1)"
    unfolding powr2_int powr2_int_Suc by blast
  with floor_log_eq_powr_iff[OF p, of 2 e] show ?thesis by (simp add: exponent_def)
qed


lemma powi2_add: "(2::real) powi (a + b) = 2 powi a * 2 powi b"
  by (simp add: power_int_add)

lemma powi2_mono: "a \<le> b \<Longrightarrow> (2::real) powi a \<le> 2 powi b"
  by (rule power_int_increasing) simp_all

lemma powi2_pos: "(0::real) < 2 powi a"
  by simp

text \<open>The scaled magnitude of a non-zero number lies between \<open>2^52\<close> and \<open>2^53\<close>.\<close>

lemma scaled_bounds:
  assumes "x \<noteq> 0"
  shows "2 ^ 52 \<le> \<bar>x\<bar> / 2 powi (exponent x - 52)" and "\<bar>x\<bar> / 2 powi (exponent x - 52) < 2 ^ 53"
proof -
  let ?q = "(2::real) powi (exponent x - 52)"
  have q: "0 < ?q" by simp
  have e: "(2::real) powi (exponent x) = 2 ^ 52 * ?q"
    using powi2_add[of 52 "exponent x - 52"] by simp
  have e1: "(2::real) powi (exponent x + 1) = 2 ^ 53 * ?q"
    using powi2_add[of 53 "exponent x - 52"] by (simp add: add.commute)
  from exponent_bounds[OF assms] have "2 ^ 52 * ?q \<le> \<bar>x\<bar>" "\<bar>x\<bar> < 2 ^ 53 * ?q"
    by (simp_all only: e e1)
  with q show "2 ^ 52 \<le> \<bar>x\<bar> / ?q" and "\<bar>x\<bar> / ?q < 2 ^ 53"
    by (simp_all add: pos_le_divide_eq pos_divide_less_eq)
qed

lemma mantissa_bounds:
  assumes "x \<noteq> 0"
  shows "2 ^ 52 \<le> roundHalfEven (\<bar>x\<bar> / 2 powi (exponent x - 52))"
    and "roundHalfEven (\<bar>x\<bar> / 2 powi (exponent x - 52)) \<le> 2 ^ 53"
proof -
  let ?s = "\<bar>x\<bar> / 2 powi (exponent x - 52)"
  from scaled_bounds[OF assms] have "of_int (2 ^ 52) \<le> ?s" "?s \<le> of_int (2 ^ 53)" by simp_all
  from roundHalfEven_mono[OF this(1)] roundHalfEven_mono[OF this(2)]
  show "2 ^ 52 \<le> roundHalfEven ?s" and "roundHalfEven ?s \<le> 2 ^ 53"
    by (simp_all only: roundHalfEven_of_int)
qed

lemma float64_zero [simp]: "float64 0 = 0"
  by (simp add: float64_def)

lemma exponent_minus [simp]: "exponent (- x) = exponent x"
  by (simp add: exponent_def)

lemma float64_minus: "float64 (- x) = - float64 x"
  by (simp add: float64_def sgn_minus)

lemma float64_pos:
  assumes "0 < x"
  shows "float64 x = of_int (roundHalfEven (x / 2 powi (exponent x - 52))) * 2 powi (exponent x - 52)"
  using assms by (simp add: float64_def)

lemma float64_pos_bounds:
  assumes "0 < x"
  shows "2 powi (exponent x) \<le> float64 x" and "float64 x \<le> 2 powi (exponent x + 1)"
proof -
  let ?q = "(2::real) powi (exponent x - 52)"
  let ?n = "roundHalfEven (\<bar>x\<bar> / ?q)"
  from assms have nz: "x \<noteq> 0" by simp
  have q: "0 < ?q" by simp
  have e: "(2::real) powi (exponent x) = 2 ^ 52 * ?q"
    using powi2_add[of 52 "exponent x - 52"] by simp
  have e1: "(2::real) powi (exponent x + 1) = 2 ^ 53 * ?q"
    using powi2_add[of 53 "exponent x - 52"] by (simp add: add.commute)
  from mantissa_bounds[OF nz] have "(2::real) ^ 52 \<le> of_int ?n" "of_int ?n \<le> (2::real) ^ 53"
    by (metis of_int_le_iff of_int_numeral of_int_power)+
  with q have "2 ^ 52 * ?q \<le> of_int ?n * ?q" "of_int ?n * ?q \<le> 2 ^ 53 * ?q"
    by (simp_all add: mult_right_mono)
  with assms show "2 powi (exponent x) \<le> float64 x" and "float64 x \<le> 2 powi (exponent x + 1)"
    by (simp_all only: e e1 float64_pos[OF assms] abs_of_pos[OF assms])
qed

lemma exponent_mono:
  assumes "0 < x" "x \<le> y"
  shows "exponent x \<le> exponent y"
proof (rule ccontr)
  assume "\<not> exponent x \<le> exponent y"
  then have "exponent y + 1 \<le> exponent x" by simp
  from powi2_mono[OF this] exponent_bounds[of x] exponent_bounds[of y] assms
  show False by simp
qed

lemma float64_pos_mono:
  assumes "0 < x" "x \<le> y"
  shows "float64 x \<le> float64 y"
proof (cases "exponent x = exponent y")
  case True
  let ?q = "(2::real) powi (exponent x - 52)"
  from assms have y: "0 < y" by simp
  have q: "0 < ?q" by simp
  from assms q have "x / ?q \<le> y / ?q" by (simp add: divide_right_mono)
  from roundHalfEven_mono[OF this] q
  have "of_int (roundHalfEven (x / ?q)) * ?q \<le> of_int (roundHalfEven (y / ?q)) * ?q"
    by (simp add: mult_right_mono)
  then show ?thesis by (simp add: float64_pos[OF assms(1)] float64_pos[OF y] True)
next
  case False
  from assms have y: "0 < y" by simp
  from False exponent_mono[OF assms] have "exponent x + 1 \<le> exponent y" by simp
  from powi2_mono[OF this] float64_pos_bounds(2)[OF assms(1)] float64_pos_bounds(1)[OF y]
  show ?thesis by linarith
qed

lemma float64_pos_nonneg: "0 < x \<Longrightarrow> 0 < float64 x"
  using float64_pos_bounds(1)[of x] powi2_pos[of "exponent x"] by linarith

lemma float64_mono:
  assumes "x \<le> y"
  shows "float64 x \<le> float64 y"
proof -
  consider "0 < x" | "x \<le> 0" "0 \<le> y" | "y < 0" using assms by linarith
  then show ?thesis
  proof cases
    case 1
    from 1 assms show ?thesis by (rule float64_pos_mono)
  next
    case 2
    have "float64 x \<le> 0"
    proof (cases "x = 0")
      case True then show ?thesis by simp
    next
      case False
      with 2 have "0 < - x" by simp
      from float64_pos_nonneg[OF this] show ?thesis by (simp add: float64_minus)
    qed
    moreover have "0 \<le> float64 y"
    proof (cases "y = 0")
      case True then show ?thesis by simp
    next
      case False
      with 2 have "0 < y" by simp
      from float64_pos_nonneg[OF this] show ?thesis by simp
    qed
    ultimately show ?thesis by simp
  next
    case 3
    with assms have "0 < - y" "- y \<le> - x" by simp_all
    from float64_pos_mono[OF this] show ?thesis by (simp add: float64_minus)
  qed
qed


lemma powi2_less_cancel: "(2::real) powi a < 2 powi b \<Longrightarrow> a < b"
  by (rule ccontr) (use powi2_mono[of b a] in simp)

lemma float64_repr_pos:
  assumes "0 < m" "m < 2 ^ 53"
  shows "float64 (of_int m * 2 powi k) = of_int m * 2 powi k"
proof -
  define x where "x = of_int m * (2::real) powi k"
  define e where "e = exponent x"
  define q where "q = (2::real) powi (e - 52)"
  have q: "0 < q" by (simp add: q_def)
  from assms have pos: "0 < x" by (simp add: x_def)
  then have nz: "x \<noteq> 0" by simp
  from assms have "of_int m < (2::real) ^ 53"
    by (metis of_int_less_iff of_int_numeral of_int_power)
  then have "x < 2 ^ 53 * 2 powi k" by (simp add: x_def)
  also have "\<dots> = 2 powi (53 + k)" using powi2_add[of 53 k] by simp
  finally have "x < 2 powi (53 + k)" .
  with exponent_bounds(1)[OF nz] pos have "(2::real) powi e < 2 powi (53 + k)" by (simp add: e_def)
  then have "e < 53 + k" by (rule powi2_less_cancel)
  then have j: "0 \<le> k - (e - 52)" by simp
  define j where "j = nat (k - (e - 52))"
  from j have jk: "k = int j + (e - 52)" by (simp add: j_def)
  have pk: "(2::real) powi k = 2 ^ j * q"
    unfolding q_def by (subst jk) (simp only: powi2_add power_int_of_nat)
  from q have s: "x / q = of_int (m * 2 ^ j)" by (simp add: x_def pk)
  have "float64 x = of_int (roundHalfEven (x / q)) * q"
    unfolding q_def e_def by (rule float64_pos[OF pos])
  also have "\<dots> = of_int (m * 2 ^ j) * q"
    by (simp only: s roundHalfEven_of_int)
  also have "\<dots> = of_int m * (2 ^ j * q)" by simp
  also have "\<dots> = x" by (simp only: pk x_def)
  finally show ?thesis by (simp only: x_def)
qed

lemma float64_repr:
  assumes "\<bar>m\<bar> < 2 ^ 53"
  shows "float64 (of_int m * 2 powi k) = of_int m * 2 powi k"
proof -
  consider "m = 0" | "0 < m" | "m < 0" by linarith
  then show ?thesis
  proof cases
    case 1 then show ?thesis by simp
  next
    case 2
    with assms show ?thesis by (simp add: float64_repr_pos)
  next
    case 3
    with assms have "0 < - m" "- m < 2 ^ 53" by simp_all
    from float64_repr_pos[OF this, of k] float64_minus[of "of_int m * 2 powi k"]
    show ?thesis by simp
  qed
qed

lemma float64_int: "\<bar>m\<bar> < 2 ^ 53 \<Longrightarrow> float64 (of_int m) = of_int m"
  using float64_repr[of m 0] by simp

lemma float64_grid_pos:
  assumes "0 < x" "1 \<le> float64 x"
  shows "\<exists>j::int. float64 x = of_int j / 2 ^ 52"
proof (cases "0 \<le> exponent x")
  case True
  define n where "n = roundHalfEven (x / 2 powi (exponent x - 52))"
  from True have en: "exponent x = int (nat (exponent x))" by simp
  have "(2::real) powi (exponent x) = 2 ^ nat (exponent x)"
    by (subst en) (rule power_int_of_nat)
  moreover have "(2::real) powi (exponent x - 52) = 2 powi (exponent x) * 2 powi (- 52)"
    using powi2_add[of "exponent x" "- 52"] by simp
  ultimately have "(2::real) powi (exponent x - 52) = 2 ^ nat (exponent x) / 2 ^ 52"
    by (simp add: power_int_minus field_simps)
  then have "float64 x = of_int (n * 2 ^ nat (exponent x)) / 2 ^ 52"
    by (simp add: float64_pos[OF assms(1)] n_def)
  then show ?thesis by blast
next
  case False
  then have "exponent x + 1 \<le> 0" by simp
  from powi2_mono[OF this] float64_pos_bounds(2)[OF assms(1)] assms(2)
  have "float64 x = 1" by simp
  then have "float64 x = of_int (2 ^ 52) / 2 ^ 52" by simp
  then show ?thesis by blast
qed

lemma float64_grid:
  assumes "1 \<le> \<bar>float64 x\<bar>"
  shows "\<exists>j::int. float64 x = of_int j / 2 ^ 52"
proof -
  from assms have nz: "x \<noteq> 0" by auto
  show ?thesis
  proof (cases "0 < x")
    case True
    from float64_pos_nonneg[OF True] assms have "1 \<le> float64 x" by simp
    from float64_grid_pos[OF True this] show ?thesis .
  next
    case False
    with nz have p: "0 < - x" by simp
    from float64_pos_nonneg[OF p] assms have "1 \<le> float64 (- x)" by (simp add: float64_minus)
    from float64_grid_pos[OF p this] obtain j :: int where "float64 (- x) = of_int j / 2 ^ 52" by blast
    then have "float64 x = of_int (- j) / 2 ^ 52" by (simp add: float64_minus)
    then show ?thesis by blast
  qed
qed

lemma float64_idem: "float64 (float64 x) = float64 x"
proof -
  have pos: "float64 (float64 y) = float64 y" if y: "0 < y" for y
  proof -
    define n where "n = roundHalfEven (\<bar>y\<bar> / 2 powi (exponent y - 52))"
    from y have nz: "y \<noteq> 0" by simp
    from mantissa_bounds[OF nz] have n: "2 ^ 52 \<le> n" "n \<le> 2 ^ 53" by (simp_all add: n_def)
    from y have f: "float64 y = of_int n * 2 powi (exponent y - 52)"
      by (simp add: float64_pos n_def)
    show ?thesis
    proof (cases "n = 2 ^ 53")
      case True
      have "float64 y = of_int 1 * 2 powi (exponent y + 1)"
        using powi2_add[of 53 "exponent y - 52"] by (simp add: f True add.commute)
      moreover have "float64 (of_int 1 * 2 powi (exponent y + 1)) = of_int 1 * 2 powi (exponent y + 1)"
        by (rule float64_repr) simp
      ultimately show ?thesis by simp
    next
      case False
      with n have "\<bar>n\<bar> < 2 ^ 53" by simp
      from float64_repr[OF this, of "exponent y - 52"] show ?thesis by (simp add: f)
    qed
  qed
  consider "x = 0" | "0 < x" | "x < 0" by linarith
  then show ?thesis
  proof cases
    case 1 then show ?thesis by simp
  next
    case 2 then show ?thesis by (rule pos)
  next
    case 3
    then have "0 < - x" by simp
    from pos[OF this] show ?thesis by (simp add: float64_minus)
  qed
qed

lemma float64_bounds:
  assumes "of_int a * 2 powi i \<le> x" "x \<le> of_int b * 2 powi j" "\<bar>a\<bar> < 2 ^ 53" "\<bar>b\<bar> < 2 ^ 53"
  shows "of_int a * 2 powi i \<le> float64 x" and "float64 x \<le> of_int b * 2 powi j"
  using float64_mono[OF assms(1)] float64_mono[OF assms(2)]
  by (simp_all add: float64_repr[OF assms(3)] float64_repr[OF assms(4)])

lemma float64_nonneg: "0 \<le> x \<Longrightarrow> 0 \<le> float64 x"
  using float64_mono[of 0 x] by simp

lemma float64_nonpos: "x \<le> 0 \<Longrightarrow> float64 x \<le> 0"
  using float64_mono[of x 0] by simp

lemma float64_le_int: "x \<le> of_int b \<Longrightarrow> \<bar>b\<bar> < 2 ^ 53 \<Longrightarrow> float64 x \<le> of_int b"
  using float64_mono[of x "of_int b"] by (simp add: float64_int)

lemma float64_ge_int: "of_int a \<le> x \<Longrightarrow> \<bar>a\<bar> < 2 ^ 53 \<Longrightarrow> of_int a \<le> float64 x"
  using float64_mono[of "of_int a" x] by (simp add: float64_int)

subsection \<open>The position in the cycle\<close>

lemma Sub_range: "minDuration \<le> Sub t u \<and> Sub t u \<le> maxDuration"
  by (simp add: Sub_def Let_def minDuration_def maxDuration_def)

lemma trunc_nonneg:
  assumes "0 \<le> d"
  shows "truncDiv d 3600000000000 = d div 3600000000000"
    and "truncRem d 3600000000000 = d mod 3600000000000"
proof -
  from assms show a: "truncDiv d 3600000000000 = d div 3600000000000"
    by (cases "d = 0") (simp_all add: truncDiv_def)
  show "truncRem d 3600000000000 = d mod 3600000000000"
    unfolding truncRem_def a by (simp add: minus_div_mult_eq_mod)
qed

lemma trunc_neg:
  assumes "d < 0"
  shows "truncDiv d 3600000000000 = - ((- d) div 3600000000000)"
    and "truncRem d 3600000000000 = - ((- d) mod 3600000000000)"
proof -
  from assms show a: "truncDiv d 3600000000000 = - ((- d) div 3600000000000)"
    by (simp add: truncDiv_def)
  have "(- d) mod 3600000000000 = (- d) - ((- d) div 3600000000000) * 3600000000000"
    by (simp add: minus_div_mult_eq_mod)
  then show "truncRem d 3600000000000 = - ((- d) mod 3600000000000)"
    unfolding truncRem_def a by simp
qed

lemma hour_nsec_bounds:
  assumes "minDuration \<le> d" "d \<le> maxDuration"
  shows "\<bar>truncDiv d 3600000000000\<bar> \<le> 2 ^ 22" and "\<bar>truncRem d 3600000000000\<bar> < 2 ^ 42"
proof -
  show "\<bar>truncDiv d 3600000000000\<bar> \<le> 2 ^ 22"
  proof (cases "0 \<le> d")
    case True
    with assms have "d div 3600000000000 \<le> 2 ^ 22" "0 \<le> d div 3600000000000"
      by (simp_all add: maxDuration_def)
    with True show ?thesis by (simp add: trunc_nonneg)
  next
    case False
    with assms have "(- d) div 3600000000000 \<le> 2 ^ 22" "0 \<le> (- d) div 3600000000000"
      by (simp_all add: minDuration_def)
    with False show ?thesis by (simp add: trunc_neg)
  qed
  show "\<bar>truncRem d 3600000000000\<bar> < 2 ^ 42"
  proof (cases "0 \<le> d")
    case True
    have "d mod 3600000000000 < 3600000000000" "0 \<le> d mod 3600000000000" by simp_all
    with True show ?thesis by (simp add: trunc_nonneg)
  next
    case False
    have "(- d) mod 3600000000000 < 3600000000000" "0 \<le> (- d) mod 3600000000000" by simp_all
    with False show ?thesis by (simp add: trunc_neg)
  qed
qed

lemma hour_nsec_sign_nonneg:
  assumes "0 \<le> d"
  shows "0 \<le> truncDiv d 3600000000000" and "0 \<le> truncRem d 3600000000000"
  using assms by (simp_all add: trunc_nonneg)

lemma hour_nsec_sign_neg:
  assumes "d < 0"
  shows "truncDiv d 3600000000000 \<le> 0" and "truncRem d 3600000000000 \<le> 0"
    and "truncDiv d 3600000000000 \<le> - 1 \<or> truncRem d 3600000000000 \<le> - 1"
proof -
  from assms have p: "0 \<le> (- d) div 3600000000000" "0 \<le> (- d) mod 3600000000000"
    by simp_all
  from assms p show "truncDiv d 3600000000000 \<le> 0" and "truncRem d 3600000000000 \<le> 0"
    by (simp_all add: trunc_neg)
  have "- d = ((- d) div 3600000000000) * 3600000000000 + (- d) mod 3600000000000"
    by simp
  with assms have "(- d) div 3600000000000 \<noteq> 0 \<or> (- d) mod 3600000000000 \<noteq> 0"
    by (metis add.right_neutral mult_zero_left neg_0_less_iff_less less_irrefl)
  with p have "1 \<le> (- d) div 3600000000000 \<or> 1 \<le> (- d) mod 3600000000000" by linarith
  with assms show "truncDiv d 3600000000000 \<le> - 1 \<or> truncRem d 3600000000000 \<le> - 1"
    by (simp add: trunc_neg)
qed

lemma float64_neg_inv_pow2: "float64 (- (1 / 2 ^ n)) = - (1 / 2 ^ n)"
proof -
  have "of_int (- 1) * (2::real) powi (- int n) = - (1 / 2 ^ n)"
    by (simp add: power_int_minus field_simps)
  with float64_repr[of "- 1" "- int n"] show ?thesis by simp
qed

lemma Hours_nonneg:
  assumes "0 \<le> d" "d \<le> maxDuration"
  shows "0 \<le> Hours d"
proof -
  define hour where "hour = truncDiv d 3600000000000"
  define nsec where "nsec = truncRem d 3600000000000"
  from hour_nsec_sign_nonneg[OF assms(1)] have s: "0 \<le> hour" "0 \<le> nsec"
    by (simp_all add: hour_def nsec_def)
  then have "0 \<le> float64 (of_int hour)" by (simp add: float64_nonneg)
  moreover from s have "0 \<le> float64 (float64 (of_int nsec) / 3600000000000)"
    by (simp add: float64_nonneg)
  ultimately have "0 \<le> float64 (float64 (of_int hour) + float64 (float64 (of_int nsec) / 3600000000000))"
    by (simp add: float64_nonneg)
  then show ?thesis by (simp add: Hours_def Let_def hour_def nsec_def)
qed

lemma Hours_neg:
  assumes "d < 0" "minDuration \<le> d"
  shows "Hours d \<le> - (1 / 2 ^ 42)"
proof -
  define hour where "hour = truncDiv d 3600000000000"
  define nsec where "nsec = truncRem d 3600000000000"
  define a where "a = float64 (of_int hour)"
  define b where "b = float64 (float64 (of_int nsec) / 3600000000000)"
  from assms have r: "minDuration \<le> d" "d \<le> maxDuration" by (simp_all add: maxDuration_def)
  from hour_nsec_bounds[OF r] have hb: "\<bar>hour\<bar> < 2 ^ 53" and nb: "\<bar>nsec\<bar> < 2 ^ 53"
    by (simp_all add: hour_def nsec_def)
  from hour_nsec_sign_neg[OF assms(1)]
  have s: "hour \<le> 0" "nsec \<le> 0" "hour \<le> - 1 \<or> nsec \<le> - 1"
    by (simp_all add: hour_def nsec_def)
  have a: "a = of_int hour" by (simp add: a_def float64_int[OF hb])
  have fn: "float64 (of_int nsec) = of_int nsec" by (rule float64_int[OF nb])
  note g = float64_neg_inv_pow2[of 42]
  have b0: "b \<le> 0" using s(2) by (simp add: b_def fn float64_nonpos divide_nonpos_pos)
  have sum: "a + b \<le> - (1 / 2 ^ 42)"
  proof (cases "hour \<le> - 1")
    case True
    then have "a \<le> - 1" by (simp add: a)
    with b0 show ?thesis by simp
  next
    case False
    with s have n: "nsec \<le> - 1" by simp
    then have "real_of_int nsec \<le> - 1" by linarith
    then have "real_of_int nsec / 3600000000000 \<le> - 1 / 3600000000000"
      by (simp add: divide_right_mono)
    also have "\<dots> \<le> - (1 / 2 ^ 42)" by simp
    finally have "b \<le> float64 (- (1 / 2 ^ 42))"
      unfolding b_def fn by (rule float64_mono)
    then have "b \<le> - (1 / 2 ^ 42)" by (simp only: g)
    moreover from s have "a \<le> 0" by (simp add: a)
    ultimately show ?thesis by simp
  qed
  from float64_mono[OF sum] have "float64 (a + b) \<le> - (1 / 2 ^ 42)"
    by (simp only: g)
  then show ?thesis by (simp add: Hours_def Let_def a_def b_def hour_def nsec_def)
qed

lemma Hours_abs:
  assumes "minDuration \<le> d" "d \<le> maxDuration"
  shows "\<bar>Hours d\<bar> \<le> 2 ^ 23"
proof -
  define hour where "hour = truncDiv d 3600000000000"
  define nsec where "nsec = truncRem d 3600000000000"
  define a where "a = float64 (of_int hour)"
  define b where "b = float64 (float64 (of_int nsec) / 3600000000000)"
  from hour_nsec_bounds[OF assms] have h22: "\<bar>hour\<bar> \<le> 2 ^ 22" and n42: "\<bar>nsec\<bar> < 2 ^ 42"
    by (simp_all add: hour_def nsec_def)
  then have hb: "\<bar>hour\<bar> < 2 ^ 53" and nb: "\<bar>nsec\<bar> < 2 ^ 53" by simp_all
  have a: "a = of_int hour" by (simp add: a_def float64_int[OF hb])
  have fn: "float64 (of_int nsec) = of_int nsec" by (rule float64_int[OF nb])
  from h22 have "\<bar>real_of_int hour\<bar> \<le> 2 ^ 22"
    by (metis of_int_abs of_int_le_iff of_int_numeral of_int_power)
  then have a22: "- (2 ^ 22) \<le> a" "a \<le> 2 ^ 22" by (simp_all add: a)
  from n42 have "\<bar>real_of_int nsec\<bar> \<le> 2 ^ 42"
    by (metis less_le of_int_abs of_int_le_iff of_int_numeral of_int_power)
  then have "\<bar>real_of_int nsec / 3600000000000\<bar> \<le> 2 ^ 42 / 3600000000000"
    by (simp add: divide_right_mono)
  then have "of_int (- 2) \<le> real_of_int nsec / 3600000000000" "real_of_int nsec / 3600000000000 \<le> of_int 2"
    by simp_all
  then have b2: "- 2 \<le> b" "b \<le> 2"
    using float64_ge_int[of "- 2" "real_of_int nsec / 3600000000000"]
          float64_le_int[of "real_of_int nsec / 3600000000000" 2]
    by (simp_all add: b_def fn)
  from a22 b2 have "of_int (- (2 ^ 23)) \<le> a + b" "a + b \<le> of_int (2 ^ 23)" by simp_all
  then have "- (2 ^ 23) \<le> float64 (a + b)" "float64 (a + b) \<le> 2 ^ 23"
    using float64_ge_int[of "- (2 ^ 23)" "a + b"] float64_le_int[of "a + b" "2 ^ 23"]
    by simp_all
  then show ?thesis by (simp add: Hours_def Let_def a_def b_def hour_def nsec_def)
qed

lemma synodicMonth_bounds: "16 \<le> synodicMonth" "synodicMonth \<le> 32"
proof -
  have "of_int 16 \<le> (2953058867 / 100000000 :: real)" "(2953058867 / 100000000 :: real) \<le> of_int 32"
    by simp_all
  then show "16 \<le> synodicMonth" "synodicMonth \<le> 32"
    using float64_ge_int[of 16 "2953058867 / 100000000"] float64_le_int[of "2953058867 / 100000000" 32]
    by (simp_all add: synodicMonth_def)
qed

lemma truncate_frac:
  "0 \<le> x \<Longrightarrow> 0 \<le> x - of_int (truncate x) \<and> x - of_int (truncate x) < 1"
  "x < 0 \<Longrightarrow> - 1 < x - of_int (truncate x) \<and> x - of_int (truncate x) \<le> 0"
  by (simp_all add: truncate_def) linarith+

lemma float64_div_pow2: "\<bar>m\<bar> < 2 ^ 53 \<Longrightarrow> float64 (of_int m / 2 ^ n) = of_int m / 2 ^ n"
proof -
  assume m: "\<bar>m\<bar> < 2 ^ 53"
  have "of_int m * (2::real) powi (- int n) = of_int m / 2 ^ n"
    by (simp add: power_int_minus field_simps)
  with float64_repr[OF m, of "- int n"] show ?thesis by simp
qed

lemma truncate_abs: "\<bar>of_int (truncate x)\<bar> \<le> \<bar>x\<bar>"
  by (simp add: truncate_def)

text \<open>Subtracting the integer part of a float is exact.\<close>

lemma frac_exact:
  assumes "\<bar>float64 y\<bar> \<le> 2 ^ 23"
  defines "c \<equiv> float64 y"
  shows "float64 (c - float64 (of_int (truncate c))) = c - of_int (truncate c)"
    and "1 \<le> \<bar>c\<bar> \<Longrightarrow> c - of_int (truncate c) < 0 \<Longrightarrow> c - of_int (truncate c) \<le> - (1 / 2 ^ 52)"
proof -
  define n where "n = truncate c"
  from truncate_abs[of c] assms(1) have "\<bar>real_of_int n\<bar> \<le> 2 ^ 23" by (simp add: n_def c_def)
  then have "\<bar>n\<bar> \<le> 2 ^ 23"
    by (metis of_int_abs of_int_le_iff of_int_numeral of_int_power)
  then have nb: "\<bar>n\<bar> < 2 ^ 53" by simp
  have fn: "float64 (of_int n) = of_int n" by (rule float64_int[OF nb])
  have f1: "\<bar>c - of_int n\<bar> < 1"
    using truncate_frac[of c] by (cases "0 \<le> c") (auto simp: n_def)
  have grid: "\<exists>m::int. \<bar>m\<bar> < 2 ^ 52 \<and> c - of_int n = of_int m / 2 ^ 52" if "1 \<le> \<bar>c\<bar>"
  proof -
    from float64_grid[of y] that obtain j :: int where j: "c = of_int j / 2 ^ 52"
      by (auto simp: c_def)
    define m where "m = j - n * 2 ^ 52"
    have e: "c - of_int n = of_int m / 2 ^ 52" by (simp add: j m_def field_simps)
    with f1 have "\<bar>real_of_int m\<bar> < 2 ^ 52" by (simp add: field_simps)
    then have "\<bar>m\<bar> < 2 ^ 52"
      by (metis of_int_abs of_int_less_iff of_int_numeral of_int_power)
    with e show ?thesis by blast
  qed
  show "float64 (c - float64 (of_int (truncate c))) = c - of_int (truncate c)"
  proof (cases "1 \<le> \<bar>c\<bar>")
    case True
    from grid[OF True] obtain m :: int where m: "\<bar>m\<bar> < 2 ^ 52" "c - of_int n = of_int m / 2 ^ 52"
      by blast
    from m(1) have "\<bar>m\<bar> < 2 ^ 53" by simp
    then have "float64 (of_int m / 2 ^ 52) = of_int m / 2 ^ 52" by (rule float64_div_pow2)
    then have "float64 (c - of_int n) = c - of_int n" by (simp only: m(2))
    then show ?thesis by (simp only: fn flip: n_def)
  next
    case False
    then have n0: "n = 0" by (simp add: n_def truncate_def) linarith
    have "float64 c = c" unfolding c_def by (rule float64_idem)
    with n0 have "float64 (c - float64 (of_int n)) = c - of_int n" by simp
    then show ?thesis by (simp only: n_def)
  qed
  show "c - of_int (truncate c) \<le> - (1 / 2 ^ 52)" if "1 \<le> \<bar>c\<bar>" "c - of_int (truncate c) < 0"
  proof -
    from grid[OF that(1)] obtain m :: int where m: "c - of_int n = of_int m / 2 ^ 52" by blast
    with that(2) have "real_of_int m < 0" by (simp add: n_def field_simps)
    then have "m \<le> - 1" by linarith
    then have "real_of_int m \<le> - 1" by linarith
    then have "real_of_int m / 2 ^ 52 \<le> - 1 / 2 ^ 52" by (simp add: divide_right_mono)
    with m show ?thesis by (simp add: n_def)
  qed
qed

lemma daysSince_facts:
  assumes "minDuration \<le> d" "d \<le> maxDuration"
  defines "D \<equiv> float64 (Hours d / 24)"
  shows "0 \<le> d \<Longrightarrow> 0 \<le> D" and "d < 0 \<Longrightarrow> D \<le> - (1 / 2 ^ 47)" and "\<bar>D\<bar> \<le> 2 ^ 23"
proof -
  show "0 \<le> D" if "0 \<le> d"
    using Hours_nonneg[OF that assms(2)] by (simp add: D_def float64_nonneg)
  show "D \<le> - (1 / 2 ^ 47)" if "d < 0"
  proof -
    from Hours_neg[OF that assms(1)] have "Hours d / 24 \<le> - (1 / 2 ^ 42) / 24"
      by (simp add: divide_right_mono)
    also have "\<dots> \<le> - (1 / 2 ^ 47)" by simp
    finally have "D \<le> float64 (- (1 / 2 ^ 47))" unfolding D_def by (rule float64_mono)
    then show ?thesis by (simp only: float64_neg_inv_pow2)
  qed
  from Hours_abs[OF assms(1,2)] have "of_int (- (2 ^ 23)) \<le> Hours d / 24" "Hours d / 24 \<le> of_int (2 ^ 23)"
    by simp_all
  then have "- (2 ^ 23) \<le> D" "D \<le> 2 ^ 23"
    using float64_ge_int[of "- (2 ^ 23)" "Hours d / 24"] float64_le_int[of "Hours d / 24" "2 ^ 23"]
    by (simp_all add: D_def)
  then show "\<bar>D\<bar> \<le> 2 ^ 23" by simp
qed

lemma cyclePosition0_facts:
  assumes "minDuration \<le> d" "d \<le> maxDuration"
  defines "c \<equiv> float64 (float64 (Hours d / 24) / synodicMonth)"
  shows "0 \<le> d \<Longrightarrow> 0 \<le> c" and "d < 0 \<Longrightarrow> c \<le> - (1 / 2 ^ 52)" and "\<bar>c\<bar> \<le> 2 ^ 23"
proof -
  define D where "D = float64 (Hours d / 24)"
  note s = synodicMonth_bounds
  from s have sp: "0 < synodicMonth" by simp
  show "0 \<le> c" if "0 \<le> d"
    using daysSince_facts(1)[OF assms(1,2) that] sp by (simp add: c_def float64_nonneg)
  show "c \<le> - (1 / 2 ^ 52)" if "d < 0"
  proof -
    from daysSince_facts(2)[OF assms(1,2) that] have D: "D \<le> - (1 / 2 ^ 47)" by (simp add: D_def)
    then have Dn: "D \<le> 0" by (rule order_trans) simp
    have "D / synodicMonth \<le> D / 32"
      by (rule divide_left_mono_neg) (use Dn s(2) sp in simp_all)
    also from D have "\<dots> \<le> - (1 / 2 ^ 47) / 32" by (simp add: divide_right_mono)
    also have "\<dots> = - (1 / 2 ^ 52)" by simp
    finally have "c \<le> float64 (- (1 / 2 ^ 52))" unfolding c_def D_def by (rule float64_mono)
    then show ?thesis by (simp only: float64_neg_inv_pow2)
  qed
  from daysSince_facts(3)[OF assms(1,2)] have Da: "\<bar>D\<bar> \<le> 2 ^ 23" by (simp add: D_def)
  have "\<bar>D / synodicMonth\<bar> = \<bar>D\<bar> / synodicMonth" using sp by simp
  also have "\<dots> \<le> \<bar>D\<bar> / 1" using sp s(1) by (intro divide_left_mono) simp_all
  finally have "\<bar>D / synodicMonth\<bar> \<le> 2 ^ 23" using Da by simp
  then have "- (2 ^ 23) \<le> D / synodicMonth" "D / synodicMonth \<le> 2 ^ 23"
    by linarith+
  then have "of_int (- (2 ^ 23)) \<le> D / synodicMonth" "D / synodicMonth \<le> of_int (2 ^ 23)"
    by simp_all
  then have "- (2 ^ 23) \<le> c" "c \<le> 2 ^ 23"
    using float64_ge_int[of "- (2 ^ 23)" "D / synodicMonth"] float64_le_int[of "D / synodicMonth" "2 ^ 23"]
    by (simp_all add: c_def D_def)
  then show "\<bar>c\<bar> \<le> 2 ^ 23" by simp
qed

lemma cyclePosition_range: "0 \<le> cyclePosition t \<and> cyclePosition t < 1"
proof -
  define d where "d = Sub t knownNewMoon"
  define c where "c = float64 (float64 (Hours d / 24) / synodicMonth)"
  define c1 where "c1 = float64 (c - float64 (of_int (truncate c)))"
  from Sub_range[of t knownNewMoon] have r: "minDuration \<le> d" "d \<le> maxDuration"
    by (simp_all add: d_def)
  note f = cyclePosition0_facts[OF r, folded c_def]
  from f(3) have "\<bar>float64 (float64 (Hours d / 24) / synodicMonth)\<bar> \<le> 2 ^ 23"
    by (simp only: c_def)
  note e = frac_exact[OF this, folded c_def]
  from e(1) have c1: "c1 = c - of_int (truncate c)" by (simp only: c1_def)
  have cp: "cyclePosition t = (if c1 < 0 then float64 (c1 + 1) else c1)"
    by (simp add: cyclePosition_def Let_def c1_def c_def d_def)
  show ?thesis
  proof (cases "c1 < 0")
    case False
    have "c1 < 1" using truncate_frac[of c] c1 by (cases "0 \<le> c") auto
    with False show ?thesis by (simp add: cp)
  next
    case True
    then have cneg: "c < 0" using truncate_frac(1)[of c] c1 by (cases "0 \<le> c") auto
    then have dneg: "d < 0" using f(1) by (cases "0 \<le> d") auto
    have small: "c1 \<le> - (1 / 2 ^ 52)"
    proof (cases "1 \<le> \<bar>c\<bar>")
      case ge: True
      from e(2)[OF ge] True show ?thesis by (simp add: c1)
    next
      case lt: False
      then have "truncate c = 0" by (simp add: truncate_def) linarith
      with f(2)[OF dneg] show ?thesis by (simp add: c1)
    qed
    from truncate_frac(2)[OF cneg] have lo: "- 1 < c1" by (simp add: c1)
    have g: "float64 (of_int (2 ^ 52 - 1) / 2 ^ 52) = of_int (2 ^ 52 - 1) / 2 ^ 52"
      by (rule float64_div_pow2) simp
    from small have "c1 + 1 \<le> of_int (2 ^ 52 - 1) / 2 ^ 52" by simp
    from float64_mono[OF this] have hi: "float64 (c1 + 1) \<le> of_int (2 ^ 52 - 1) / 2 ^ 52"
      by (simp only: g)
    have "of_int (2 ^ 52 - 1) / 2 ^ 52 < (1::real)" by simp
    with hi have "float64 (c1 + 1) < 1" by (rule le_less_trans)
    moreover from lo have "0 \<le> float64 (c1 + 1)" by (simp add: float64_nonneg)
    ultimately show ?thesis using True by (simp add: cp)
  qed
qed

lemma illuminationOf_range:
  assumes "0 \<le> cp" "cp < 1"
  shows "0 \<le> illuminationOf cp \<and> illuminationOf cp \<le> 1"
proof (cases "cp < 0.5")
  case True
  with assms have "of_int 0 \<le> cp * 2" "cp * 2 \<le> of_int 1" by simp_all
  then have "0 \<le> float64 (cp * 2)" "float64 (cp * 2) \<le> 1"
    using float64_ge_int[of 0 "cp * 2"] float64_le_int[of "cp * 2" 1] by simp_all
  with True show ?thesis by (simp add: illuminationOf_def)
next
  case False
  with assms have "0 \<le> 1 - cp" "1 - cp \<le> of_int 1 / 2 ^ 1" by simp_all
  then have "0 \<le> float64 (1 - cp)" "float64 (1 - cp) \<le> 1 / 2"
    using float64_nonneg[of "1 - cp"] float64_mono[of "1 - cp" "of_int 1 / 2 ^ 1"]
      float64_div_pow2[of 1 1]
    by simp_all
  then have "of_int 0 \<le> float64 (1 - cp) * 2" "float64 (1 - cp) * 2 \<le> of_int 1" by simp_all
  then have "0 \<le> float64 (float64 (1 - cp) * 2)" "float64 (float64 (1 - cp) * 2) \<le> 1"
    using float64_ge_int[of 0 "float64 (1 - cp) * 2"] float64_le_int[of "float64 (1 - cp) * 2" 1]
    by simp_all
  with False show ?thesis by (simp add: illuminationOf_def)
qed

lemma phaseOf_cases:
  "phaseOf cp \<in>
     {(''New Moon'', [CHR 0xC3, CHR 0xB0, CHR 0xC5, CHR 0xB8, CHR 0xC5, CHR 0x92, CHR 0xE2, CHR 0x80, CHR 0x98]),
      (''Waxing Crescent'', [CHR 0xC3, CHR 0xB0, CHR 0xC5, CHR 0xB8, CHR 0xC5, CHR 0x92, CHR 0xE2, CHR 0x80, CHR 0x99]),
      (''First Quarter'', [CHR 0xC3, CHR 0xB0, CHR 0xC5, CHR 0xB8, CHR 0xC5, CHR 0x92, CHR 0xE2, CHR 0x80, CHR 0x9C]),
      (''Waxing Gibbous'', [CHR 0xC3, CHR 0xB0, CHR 0xC5, CHR 0xB8, CHR 0xC5, CHR 0x92, CHR 0xE2, CHR 0x80, CHR 0x9D]),
      (''Full Moon'', [CHR 0xC3, CHR 0xB0, CHR 0xC5, CHR 0xB8, CHR 0xC5, CHR 0x92, CHR 0xE2, CHR 0x80, CHR 0xA2]),
      (''Waning Gibbous'', [CHR 0xC3, CHR 0xB0, CHR 0xC5, CHR 0xB8, CHR 0xC5, CHR 0x92, CHR 0xE2, CHR 0x80, CHR 0x93]),
      (''Last Quarter'', [CHR 0xC3, CHR 0xB0, CHR 0xC5, CHR 0xB8, CHR 0xC5, CHR 0x92, CHR 0xE2, CHR 0x80, CHR 0x94]),
      (''Waning Crescent'', [CHR 0xC3, CHR 0xB0, CHR 0xC5, CHR 0xB8, CHR 0xC5, CHR 0x92, CHR 0xCB, CHR 0x9C])}"
  by (simp add: phaseOf_def)

text \<open>
  Claim C9. For every time \<open>t\<close>, the position in the cycle is normalised into \<open>[0, 1)\<close>;
  the phase name and emoji of \<^verbatim>\<open>calculateMoonPhase\<close> are chosen from it and are one of the
  eight pairs of a phase name with its emoji; and the illumination is a percentage
  between 0 and 100.
\<close>

theorem moon_phase_range:
  "0 \<le> cyclePosition t \<and> cyclePosition t < 1 \<and>
   (fst (calculateMoonPhase t), snd (snd (calculateMoonPhase t))) = phaseOf (cyclePosition t) \<and>
   (fst (calculateMoonPhase t), snd (snd (calculateMoonPhase t))) \<in>
     {(''New Moon'', [CHR 0xC3, CHR 0xB0, CHR 0xC5, CHR 0xB8, CHR 0xC5, CHR 0x92, CHR 0xE2, CHR 0x80, CHR 0x98]),
      (''Waxing Crescent'', [CHR 0xC3, CHR 0xB0, CHR 0xC5, CHR 0xB8, CHR 0xC5, CHR 0x92, CHR 0xE2, CHR 0x80, CHR 0x99]),
      (''First Quarter'', [CHR 0xC3, CHR 0xB0, CHR 0xC5, CHR 0xB8, CHR 0xC5, CHR 0x92, CHR 0xE2, CHR 0x80, CHR 0x9C]),
      (''Waxing Gibbous'', [CHR 0xC3, CHR 0xB0, CHR 0xC5, CHR 0xB8, CHR 0xC5, CHR 0x92, CHR 0xE2, CHR 0x80, CHR 0x9D]),
      (''Full Moon'', [CHR 0xC3, CHR 0xB0, CHR 0xC5, CHR 0xB8, CHR 0xC5, CHR 0x92, CHR 0xE2, CHR 0x80, CHR 0xA2]),
      (''Waning Gibbous'', [CHR 0xC3, CHR 0xB0, CHR 0xC5, CHR 0xB8, CHR 0xC5, CHR 0x92, CHR 0xE2, CHR 0x80, CHR 0x93]),
      (''Last Quarter'', [CHR 0xC3, CHR 0xB0, CHR 0xC5, CHR 0xB8, CHR 0xC5, CHR 0x92, CHR 0xE2, CHR 0x80, CHR 0x94]),
      (''Waning Crescent'', [CHR 0xC3, CHR 0xB0, CHR 0xC5, CHR 0xB8, CHR 0xC5, CHR 0x92, CHR 0xCB, CHR 0x9C])} \<and>
   0 \<le> fst (snd (calculateMoonPhase t)) \<and> fst (snd (calculateMoonPhase t)) \<le> 100"
proof -
  note c = cyclePosition_range[of t]
  from c illuminationOf_range[of "cyclePosition t"]
  have i: "0 \<le> illuminationOf (cyclePosition t)" "illuminationOf (cyclePosition t) \<le> 1" by simp_all
  then have "of_int 0 \<le> illuminationOf (cyclePosition t) * 100"
    "illuminationOf (cyclePosition t) * 100 \<le> of_int 100" by simp_all
  then have b: "0 \<le> float64 (illuminationOf (cyclePosition t) * 100)"
    "float64 (illuminationOf (cyclePosition t) * 100) \<le> 100"
    using float64_ge_int[of 0 "illuminationOf (cyclePosition t) * 100"]
      float64_le_int[of "illuminationOf (cyclePosition t) * 100" 100]
    by simp_all
  have p: "(fst (calculateMoonPhase t), snd (snd (calculateMoonPhase t))) = phaseOf (cyclePosition t)"
    and l: "fst (snd (calculateMoonPhase t)) = float64 (illuminationOf (cyclePosition t) * 100)"
    by (simp_all add: calculateMoonPhase_def Let_def split_beta)
  from c b phaseOf_cases[of "cyclePosition t"] show ?thesis
    unfolding p l by blast
qed

lemma calculateMoonPhase_at_known_new_moon:
  "calculateMoonPhase knownNewMoon = (''New Moon'', 0, [CHR 0xC3, CHR 0xB0, CHR 0xC5, CHR 0xB8, CHR 0xC5, CHR 0x92, CHR 0xE2, CHR 0x80, CHR 0x98])"
proof -
  have "Hours (Sub knownNewMoon knownNewMoon) = 0"
    by (simp add: Sub_def Hours_def truncDiv_def truncRem_def minDuration_def maxDuration_def)
  then have "cyclePosition knownNewMoon = 0"
    by (simp add: cyclePosition_def Let_def truncate_def)
  then show ?thesis
    by (simp add: calculateMoonPhase_def Let_def phaseOf_def illuminationOf_def)
qed

end
